theory Spec2Isabelle
  imports Complex_Main
begin

section \<open>The combat engine of \<^verbatim>\<open>src/models/combat/combat.ts\<close>\<close>

text \<open>
  The embedding follows the class \<^verbatim>\<open>Combat\<close> of the current version of
  \<^verbatim>\<open>combat.ts\<close> (the one with \<^verbatim>\<open>move_combat_queue\<close>, \<^verbatim>\<open>apply_effect\<close> and
  \<^verbatim>\<open>remove_effect\<close>).

  \<^item> Objects have identity. Characters and ledger records live in two object stores
    (\<open>chars\<close>, \<open>effs\<close>: total maps from references to values); arrays hold references.
    \<^verbatim>\<open>this.active_effects\<close> is re-assigned by \<^verbatim>\<open>filter\<close> and \<^verbatim>\<open>slice/concat\<close> while
    a \<^verbatim>\<open>forEach\<close> may still be walking the previous array, and records are mutated in place,
    so the aliasing is kept.
  \<^item> Numbers are integers, with \<^verbatim>\<open>Infinity\<close> and \<^verbatim>\<open>NaN\<close> added where the code produces
    or tests them (durations and tick counters); quotients are exact rationals with the
    IEEE results of a division by zero.
  \<^item> The closures supplied by the application (\<^verbatim>\<open>action.execute\<close>, \<^verbatim>\<open>effect.turn_action\<close>,
    \<^verbatim>\<open>effect.action_after_end\<close>) are handles; an environment gives, for a handle and the
    state in which it is called, the value it returns and the sequence of writes and engine
    calls it performs (\<^verbatim>\<open>turn_state.apply_effect\<close>, \<^verbatim>\<open>turn_state.remove_effect\<close>, HP and
    mana of a character).
  \<^item> The text written to the console when \<^verbatim>\<open>verbose\<close> is set is not part of the state; the
    reads made to build it are, where they can throw (\<^verbatim>\<open>target.name\<close> without a target).
  \<^item> A closure of the application is taken to return; what it does to the inventory, the
    equipment or the skills of a character is not part of the state.
\<close>

subsection \<open>Numbers\<close>

datatype jsnum = Num int | Infinity | NaN

text \<open>\<^verbatim>\<open>x * this.combat_queue.length\<close>\<close>
fun js_times :: "jsnum \<Rightarrow> nat \<Rightarrow> jsnum" where
  "js_times (Num d) n = Num (d * int n)"
| "js_times Infinity n = (if n = 0 then NaN else Infinity)"
| "js_times NaN n = NaN"

text \<open>\<^verbatim>\<open>a + b\<close> (no negative infinity arises: an infinite duration is \<^verbatim>\<open>Infinity\<close>)\<close>
fun js_plus :: "jsnum \<Rightarrow> jsnum \<Rightarrow> jsnum" where
  "js_plus (Num a) (Num b) = Num (a + b)"
| "js_plus (Num a) Infinity = Infinity"
| "js_plus Infinity (Num b) = Infinity"
| "js_plus Infinity Infinity = Infinity"
| "js_plus NaN b = NaN"
| "js_plus a NaN = NaN"

text \<open>\<^verbatim>\<open>x -= 1\<close>\<close>
fun js_decr :: "jsnum \<Rightarrow> jsnum" where
  "js_decr (Num a) = Num (a - 1)"
| "js_decr Infinity = Infinity"
| "js_decr NaN = NaN"

text \<open>\<^verbatim>\<open>x % n\<close>: the remainder has the sign of the dividend; \<^verbatim>\<open>x % 0\<close> and
  \<^verbatim>\<open>Infinity % n\<close> are \<^verbatim>\<open>NaN\<close>.\<close>
fun js_rem :: "jsnum \<Rightarrow> nat \<Rightarrow> jsnum" where
  "js_rem (Num a) n = (if n = 0 then NaN else Num (sgn a * (\<bar>a\<bar> mod int n)))"
| "js_rem Infinity n = NaN"
| "js_rem NaN n = NaN"

text \<open>\<^verbatim>\<open>x > 0\<close>\<close>
fun js_positive :: "jsnum \<Rightarrow> bool" where
  "js_positive (Num a) = (0 < a)"
| "js_positive Infinity = True"
| "js_positive NaN = False"

datatype jsquot = Quot rat | QInfinity | QNegInfinity | QNaN

text \<open>\<^verbatim>\<open>damage / duration\<close> for a finite \<^verbatim>\<open>damage\<close>\<close>
fun js_div :: "int \<Rightarrow> jsnum \<Rightarrow> jsquot" where
  "js_div a (Num b) =
     (if b = 0 then (if 0 < a then QInfinity else if a < 0 then QNegInfinity else QNaN)
      else Quot (rat_of_int a / rat_of_int b))"
| "js_div a Infinity = Quot 0"
| "js_div a NaN = QNaN"

text \<open>\<^verbatim>\<open>x > y\<close> on quotients\<close>
fun js_gt :: "jsquot \<Rightarrow> jsquot \<Rightarrow> bool" where
  "js_gt QNaN y = False"
| "js_gt x QNaN = False"
| "js_gt (Quot a) (Quot b) = (b < a)"
| "js_gt (Quot a) QNegInfinity = True"
| "js_gt (Quot a) QInfinity = False"
| "js_gt QInfinity QInfinity = False"
| "js_gt QInfinity y = True"
| "js_gt QNegInfinity y = False"

subsection \<open>Actions, effects, characters\<close>

type_synonym addr = nat
type_synonym ref = nat
type_synonym cb = nat

text \<open>Modelled from the spec: the action contract (\<^verbatim>\<open>IAction\<close>, \<^verbatim>\<open>IChildAction\<close> and
  \<^verbatim>\<open>EActionType\<close> of \<^verbatim>\<open>internal\<close>, which are not among the sources), with the members that
  \<^verbatim>\<open>combat.ts\<close> reads and the action types the application file uses.\<close>
datatype EActionType = NULL | PHYSICAL_ATTACK | HELP | HEAL | DOT | USE_ITEM

text \<open>An \<^verbatim>\<open>execute\<close> closure: the one of the engine's own no-op action
  (\<^verbatim>\<open>() => { return true; }\<close>) or one supplied by the application.\<close>
datatype execute_fn = ReturnTrue | Closure cb

record action =
  action_id :: string
  parent_action_id :: "string option"
  action_type :: EActionType
  related_skill :: "string option"
  execute :: execute_fn

text \<open>Modelled from the spec: \<^verbatim>\<open>ESpellComponent\<close> of \<^verbatim>\<open>types/spell.types\<close>, and the optional
  members of an effect that \<^verbatim>\<open>types/effect.types\<close> declares in the current version
  (\<^verbatim>\<open>blocks_somatic\<close>, \<^verbatim>\<open>blocks_verbal\<close>, \<^verbatim>\<open>components\<close>, \<^verbatim>\<open>damage\<close>). An absent optional
  member is \<open>None\<close>; an absent \<^verbatim>\<open>blocks_*\<close> flag is \<open>False\<close>, as it is only tested for
  truth. \<^verbatim>\<open>EEffectType\<close> is a string enumeration.\<close>
datatype ESpellComponent = SOMATIC | VERBAL

record effect =
  effect_type :: string
  blocks_action :: bool
  duration :: jsnum
  blocks_somatic :: bool
  blocks_verbal :: bool
  components :: "ESpellComponent list option"
  damage :: "int option"
  turn_action :: "cb option"
  action_after_end :: "cb option"

text \<open>An element of \<^verbatim>\<open>CombatEffects\<close>: \<^verbatim>\<open>{ char_id, remaining_turns } & IEffect\<close>.\<close>
record active_effect = effect +
  char_id :: string
  remaining_turns :: jsnum

text \<open>The object handed to \<^verbatim>\<open>apply_effect\<close>. Its parameter is declared an \<^verbatim>\<open>IEffect\<close>, and an
  object with further members is one: an element of \<^verbatim>\<open>turn_state.active_effects\<close>, which a
  closure is given and can hand back, has a \<^verbatim>\<open>char_id\<close> and a \<^verbatim>\<open>remaining_turns\<close> of its
  own. These are the two members that matter to the spread \<^verbatim>\<open>...effect\<close> of the push;
  \<open>None\<close>: the object has no such member.\<close>
record incoming = effect +
  own_char_id :: "string option"
  own_remaining_turns :: "jsnum option"

text \<open>Modelled from the spec: the combatant (\<^verbatim>\<open>Character\<close> with its subclasses \<^verbatim>\<open>NPC\<close> and
  \<^verbatim>\<open>Player\<close>, not among the sources), with the members that \<^verbatim>\<open>combat.ts\<close> reads; an equipped
  item optionally exposes actions (\<^verbatim>\<open>instanceOfEquipmentWithActions\<close>). \<open>is_npc\<close> is
  \<^verbatim>\<open>agent instanceof NPC\<close>; \<open>default_available_actions\<close> is
  \<^verbatim>\<open>default_values.available_actions\<close>.\<close>
record equipment =
  equip_available_actions :: "action list option"

record character =
  char_ident :: string
  current_hp :: int
  current_mana :: int
  is_npc :: bool
  default_available_actions :: "action list"
  equipped_equipment :: "equipment list"
  spells :: "action list"

subsection \<open>The state of a \<^verbatim>\<open>Combat\<close>\<close>

text \<open>The snapshot \<^verbatim>\<open>TurnState\<close>. Its members \<^verbatim>\<open>active_effects\<close>, \<^verbatim>\<open>apply_effect\<close> and
  \<^verbatim>\<open>remove_effect\<close> give the closures access to the ledger; here the closures are given the
  whole state, and what they do to the ledger is in the operations they return.\<close>
record turn_state =
  agent :: addr
  available_actions :: "action list"
  allies :: "addr list"
  enemies :: "addr list"

text \<open>What the engine has called or handed out, and the calls it has received through the
  members \<^verbatim>\<open>apply_effect\<close> and \<^verbatim>\<open>remove_effect\<close> of a snapshot, in order (a ghost field of
  the state).\<close>
datatype event =
    Yielded
  | TurnActionCalled ref cb
  | ActionAfterEndCalled ref cb
  | ApplyEffectCalled incoming string
  | RemoveEffectCalled string string

record combat =
  result :: "nat option"
  current_index :: nat
  combat_queue :: "addr list"
  group_1 :: "addr list"
  group_2 :: "addr list"
  verbose :: bool
  turn_state :: "turn_state option"
  active_effects :: "ref list"
  chars :: "addr \<Rightarrow> character"
  effs :: "ref \<Rightarrow> active_effect"
  next_ref :: ref
  log :: "event list"

datatype action_result = RNumber int | RBoolean bool | RUndefined

text \<open>What a closure of the application does to the engine and to the characters.\<close>
datatype op =
    ApplyEffect incoming string
  | RemoveEffect string string
  | SetHp addr int
  | SetMana addr int

record env =
  run_execute :: "cb \<Rightarrow> addr option \<Rightarrow> combat \<Rightarrow> action_result \<times> op list"
  run_callback :: "cb \<Rightarrow> addr option \<Rightarrow> combat \<Rightarrow> op list"

datatype error = ActionNotAvailable | TypeError

subsection \<open>The effect ledger\<close>

text \<open>The guards \<^verbatim>\<open>instanceOfEffectWith...\<close> test the presence of a member
  (\<^verbatim>\<open>hasOwnProperty\<close>). Where the member's value is used next, the guard is the case
  distinction on the optional member (\<open>damage\<close>, \<open>components\<close>, \<open>turn_action\<close>,
  \<open>action_after_end\<close>).\<close>
definition instanceOfEffectWithActionPerTurn :: "('a effect_scheme) \<Rightarrow> bool" where
  "instanceOfEffectWithActionPerTurn e = (turn_action e \<noteq> None)"

text \<open>\<^verbatim>\<open>(eff) => eff.type === effect_type && eff.char_id === char_id\<close>\<close>
definition same_effect :: "combat \<Rightarrow> string \<Rightarrow> string \<Rightarrow> ref \<Rightarrow> bool" where
  "same_effect s ty cid r = (effect_type (effs s r) = ty \<and> char_id (effs s r) = cid)"

text \<open>\<^verbatim>\<open>Array.prototype.findIndex\<close>\<close>
fun findIndex :: "('a \<Rightarrow> bool) \<Rightarrow> 'a list \<Rightarrow> nat option" where
  "findIndex P [] = None"
| "findIndex P (x # xs) =
     (if P x then Some 0 else (case findIndex P xs of None \<Rightarrow> None | Some i \<Rightarrow> Some (Suc i)))"

definition remove_effect :: "string \<Rightarrow> string \<Rightarrow> combat \<Rightarrow> combat" where
  "remove_effect ty cid s =
     (case findIndex (same_effect s ty cid) (active_effects s) of
        Some i \<Rightarrow> s\<lparr>active_effects := take i (active_effects s) @ drop (i + 1) (active_effects s)\<rparr>
      | None \<Rightarrow> s)"

text \<open>The merge branch of \<^verbatim>\<open>apply_effect\<close>: the record found is updated in place. The
  rates are compared when both the record and the incoming effect have a \<open>damage\<close>.\<close>
definition merge_effect :: "nat \<Rightarrow> incoming \<Rightarrow> active_effect \<Rightarrow> active_effect" where
  "merge_effect n e ae =
     (let ae1 =
        (case (damage ae, damage e) of
           (Some active_damage, Some incoming_damage) \<Rightarrow>
             (let active_effect_dmg = js_div active_damage (duration ae);
                  effect_dmg = js_div incoming_damage (duration e)
              in if js_gt effect_dmg active_effect_dmg
                 then (let ae' = ae\<lparr>duration := duration e, damage := damage e\<rparr>
                       in if instanceOfEffectWithActionPerTurn ae \<and> instanceOfEffectWithActionPerTurn e
                          then ae'\<lparr>turn_action := turn_action e\<rparr>
                          else ae')
                 else ae)
         | _ \<Rightarrow> ae)
      in ae1\<lparr>remaining_turns := js_plus (remaining_turns ae1) (js_times (duration e) n)\<rparr>)"

text \<open>The body of the interruption scan, for one element \<open>ae\<close> of the array walked.\<close>
definition interrupt_step :: "incoming \<Rightarrow> string \<Rightarrow> combat \<Rightarrow> ref \<Rightarrow> combat" where
  "interrupt_step e target_id s ae =
     (case components (effs s ae) of
        None \<Rightarrow> s
      | Some cs \<Rightarrow>
          if (SOMATIC \<in> set cs \<and> blocks_somatic e) \<or> (VERBAL \<in> set cs \<and> blocks_verbal e)
          then remove_effect (effect_type e) target_id s
          else s)"

text \<open>The object pushed by \<^verbatim>\<open>apply_effect\<close>:
  \<^verbatim>\<open>{ char_id: target_id, remaining_turns: effect.duration * n, ...effect }\<close>. The members of
  \<^verbatim>\<open>effect\<close> are copied last, over the two just set when \<^verbatim>\<open>effect\<close> has them.\<close>
definition pushed_record :: "nat \<Rightarrow> incoming \<Rightarrow> string \<Rightarrow> active_effect" where
  "pushed_record n e target_id =
     effect.extend (effect.truncate e)
       (active_effect.fields
          (case own_char_id e of Some c \<Rightarrow> c | None \<Rightarrow> target_id)
          (case own_remaining_turns e of Some m \<Rightarrow> m | None \<Rightarrow> js_times (duration e) n))"

definition apply_effect :: "incoming \<Rightarrow> string \<Rightarrow> combat \<Rightarrow> combat" where
  "apply_effect e target_id s =
     (let n = length (combat_queue s);
          s1 = (case find (same_effect s (effect_type e) target_id) (active_effects s) of
                  Some r \<Rightarrow> s\<lparr>effs := (effs s)(r := merge_effect n e (effs s r))\<rparr>
                | None \<Rightarrow>
                    s\<lparr>effs := (effs s)(next_ref s := pushed_record n e target_id),
                      active_effects := active_effects s @ [next_ref s],
                      next_ref := Suc (next_ref s)\<rparr>)
      in foldl (interrupt_step e target_id) s1 (active_effects s1))"

subsection \<open>Closures of the application\<close>

text \<open>A closure, like the holder of a snapshot, reaches the ledger through
  \<^verbatim>\<open>turn_state.apply_effect\<close> and \<^verbatim>\<open>turn_state.remove_effect\<close> (the two methods, bound to the
  combat); the call is recorded.\<close>
fun run_op :: "combat \<Rightarrow> op \<Rightarrow> combat" where
  "run_op s (ApplyEffect e target_id) =
     (apply_effect e target_id s)\<lparr>log := log s @ [ApplyEffectCalled e target_id]\<rparr>"
| "run_op s (RemoveEffect ty target_id) =
     (remove_effect ty target_id s)\<lparr>log := log s @ [RemoveEffectCalled ty target_id]\<rparr>"
| "run_op s (SetHp c hp) = s\<lparr>chars := (chars s)(c := (chars s c)\<lparr>current_hp := hp\<rparr>)\<rparr>"
| "run_op s (SetMana c mp) = s\<lparr>chars := (chars s)(c := (chars s c)\<lparr>current_mana := mp\<rparr>)\<rparr>"

definition run_ops :: "op list \<Rightarrow> combat \<Rightarrow> combat" where
  "run_ops ops s = foldl run_op s ops"

text \<open>\<^verbatim>\<open>action.execute({ target, turn_state })\<close>\<close>
fun call_execute :: "env \<Rightarrow> execute_fn \<Rightarrow> addr option \<Rightarrow> combat \<Rightarrow> action_result \<times> op list" where
  "call_execute E ReturnTrue target s = (RBoolean True, [])"
| "call_execute E (Closure f) target s = run_execute E f target s"

subsection \<open>Ticking the ledger\<close>

definition get_char_by_id :: "combat \<Rightarrow> string \<Rightarrow> addr option" where
  "get_char_by_id s cid = find (\<lambda>c. char_ident (chars s c) = cid) (combat_queue s)"

text \<open>The body of the \<^verbatim>\<open>forEach\<close> of \<^verbatim>\<open>update_active_effects\<close>, for the record \<open>r\<close>.\<close>
definition tick_effect :: "env \<Rightarrow> combat \<Rightarrow> ref \<Rightarrow> combat" where
  "tick_effect E s r =
     (let effect_target = get_char_by_id s (char_id (effs s r));
          round_start = (js_rem (remaining_turns (effs s r)) (length (combat_queue s)) = Num 0);
          s1 = (case turn_action (effs s r) of
                  Some f \<Rightarrow>
                    if round_start \<or> remaining_turns (effs s r) = Infinity
                    then run_ops (run_callback E f effect_target s)
                           (s\<lparr>log := log s @ [TurnActionCalled r f]\<rparr>)
                    else s
                | None \<Rightarrow> s);
          s2 = s1\<lparr>effs := (effs s1)(r := (effs s1 r)
                   \<lparr>remaining_turns := js_decr (remaining_turns (effs s1 r))\<rparr>)\<rparr>
      in (case action_after_end (effs s2 r) of
            Some g \<Rightarrow>
              if remaining_turns (effs s2 r) = Num 0
              then run_ops (run_callback E g effect_target s2)
                     (s2\<lparr>log := log s2 @ [ActionAfterEndCalled r g]\<rparr>)
              else s2
          | None \<Rightarrow> s2))"

definition update_active_effects :: "env \<Rightarrow> combat \<Rightarrow> combat" where
  "update_active_effects E s =
     (let s1 = foldl (tick_effect E) s (active_effects s)
      in s1\<lparr>active_effects :=
              filter (\<lambda>r. js_positive (remaining_turns (effs s1 r))) (active_effects s1)\<rparr>)"

subsection \<open>The turn scheduler\<close>

datatype completion = Normal | Throw error

text \<open>One pass of the \<^verbatim>\<open>do ... while (!can_attack)\<close> body, up to the test of
  \<^verbatim>\<open>current_hp\<close>.\<close>
definition advance_once :: "env \<Rightarrow> combat \<Rightarrow> combat" where
  "advance_once E s =
     (let s1 = update_active_effects E s
      in s1\<lparr>current_index := (1 + current_index s1) mod length (combat_queue s1)\<rparr>)"

definition can_attack :: "combat \<Rightarrow> bool" where
  "can_attack s = (0 < current_hp (chars s (combat_queue s ! current_index s)))"

text \<open>\<open>None\<close> is a loop that does not end. With an empty queue the index becomes
  \<^verbatim>\<open>NaN\<close> and reading \<^verbatim>\<open>current_hp\<close> of \<^verbatim>\<open>undefined\<close> throws.\<close>
partial_function (option) move_combat_queue :: "env \<Rightarrow> combat \<Rightarrow> (completion \<times> combat) option" where
  "move_combat_queue E s =
     (if combat_queue s = [] then Some (Throw TypeError, update_active_effects E s)
      else if can_attack (advance_once E s) then Some (Normal, advance_once E s)
      else move_combat_queue E (advance_once E s))"

subsection \<open>The win check\<close>

definition sum_hp :: "combat \<Rightarrow> addr list \<Rightarrow> int" where
  "sum_hp s g = foldl (\<lambda>acc curr. acc + current_hp (chars s curr)) 0 g"

definition check_finish :: "combat \<Rightarrow> combat" where
  "check_finish s =
     (if sum_hp s (group_1 s) \<le> 0 then s\<lparr>result := Some 1\<rparr>
      else if sum_hp s (group_2 s) \<le> 0 then s\<lparr>result := Some 0\<rparr>
      else s)"

subsection \<open>Validating and executing an action\<close>

definition offers :: "action \<Rightarrow> action \<Rightarrow> bool" where
  "offers action av_action =
     (action_id av_action = action_id action \<or> Some (action_id av_action) = parent_action_id action)"

text \<open>\<^verbatim>\<open>typeof action_result !== "boolean" || action_result === true\<close>\<close>
fun consumes_turn :: "action_result \<Rightarrow> bool" where
  "consumes_turn (RBoolean b) = b"
| "consumes_turn (RNumber x) = True"
| "consumes_turn RUndefined = True"

text \<open>\<^verbatim>\<open>typeof action_result === "number"\<close>\<close>
fun is_number :: "action_result \<Rightarrow> bool" where
  "is_number (RNumber x) = True"
| "is_number (RBoolean b) = False"
| "is_number RUndefined = False"

text \<open>With \<^verbatim>\<open>verbose\<close> set, a numeric result is written to the console with \<^verbatim>\<open>target.name\<close>:
  without a target that read throws, before the queue is moved.\<close>
definition act :: "env \<Rightarrow> action \<Rightarrow> addr option \<Rightarrow> combat \<Rightarrow> (completion \<times> combat) option" where
  "act E action target s =
     (case turn_state s of
        None \<Rightarrow> Some (Throw TypeError, s)
      | Some ts \<Rightarrow>
          (case find (offers action) (available_actions ts) of
             None \<Rightarrow> Some (Throw ActionNotAvailable, s)
           | Some av \<Rightarrow>
               (let (action_result, ops) = call_execute E (execute action) target s;
                    s1 = run_ops ops s
                in if verbose s1 \<and> is_number action_result \<and> target = None
                   then Some (Throw TypeError, s1)
                   else if consumes_turn action_result
                   then (case move_combat_queue E s1 of
                           None \<Rightarrow> None
                         | Some (Throw err, s2) \<Rightarrow> Some (Throw err, s2)
                         | Some (Normal, s2) \<Rightarrow> Some (Normal, check_finish s2))
                   else Some (Normal, check_finish s1))))"

subsection \<open>Offered actions\<close>

definition null_action :: action where
  "null_action =
     \<lparr>action_id = ''NULL'', parent_action_id = None, action_type = NULL,
      related_skill = None, execute = ReturnTrue\<rparr>"

definition get_available_actions :: "combat \<Rightarrow> error + action list" where
  "get_available_actions s =
     (if current_index s < length (combat_queue s)
      then (let agent = chars s (combat_queue s ! current_index s)
            in (case find (\<lambda>r. char_id (effs s r) = char_ident agent \<and> blocks_action (effs s r))
                       (active_effects s) of
                  Some r \<Rightarrow> Inr [null_action]
                | None \<Rightarrow>
                    Inr (foldl (\<lambda>available_actions equip.
                                  (case equip_available_actions equip of
                                     Some as \<Rightarrow> available_actions @ as
                                   | None \<Rightarrow> available_actions))
                           (default_available_actions agent) (equipped_equipment agent)
                         @ spells agent)))
      else Inl TypeError)"

definition get_allies_and_enemies :: "combat \<Rightarrow> addr \<Rightarrow> addr list \<times> addr list" where
  "get_allies_and_enemies s a =
     (case find (\<lambda>c. char_ident (chars s c) = char_ident (chars s a)) (group_1 s) of
        Some c \<Rightarrow> (group_1 s, group_2 s)
      | None \<Rightarrow> (group_2 s, group_1 s))"

subsection \<open>The controller\<close>

text \<open>\<^verbatim>\<open>shuffleArray\<close>; \<open>rnd i\<close> stands for the value of \<^verbatim>\<open>Math.random()\<close> drawn at index
  \<open>i\<close>, scaled: \<^verbatim>\<open>j = Math.floor(Math.random() * (i + 1))\<close> lies in \<open>0..i\<close>.\<close>
fun shuffle_from :: "(nat \<Rightarrow> nat) \<Rightarrow> nat \<Rightarrow> 'a list \<Rightarrow> 'a list" where
  "shuffle_from rnd 0 array = array"
| "shuffle_from rnd (Suc i) array =
     (let i' = Suc i; j = rnd i' mod (i' + 1)
      in shuffle_from rnd i (array[i' := array ! j, j := array ! i']))"

definition shuffleArray :: "(nat \<Rightarrow> nat) \<Rightarrow> 'a list \<Rightarrow> 'a list" where
  "shuffleArray rnd array = shuffle_from rnd (length array - 1) array"

text \<open>The content of a reference of the ledger store that no record has been written to.\<close>
definition blank_effect :: active_effect where
  "blank_effect =
     \<lparr>effect_type = [], blocks_action = False, duration = Num 0, blocks_somatic = False,
      blocks_verbal = False, components = None, damage = None, turn_action = None,
      action_after_end = None, char_id = [], remaining_turns = Num 0\<rparr>"

text \<open>The constructor. \<open>store\<close> holds the characters the two groups refer to; \<open>vb\<close> is the
  optional third argument (\<^verbatim>\<open>verbose: boolean = true\<close>).\<close>
definition Combat ::
  "(nat \<Rightarrow> nat) \<Rightarrow> (addr \<Rightarrow> character) \<Rightarrow> addr list \<Rightarrow> addr list \<Rightarrow> bool option \<Rightarrow> combat" where
  "Combat rnd store g1 g2 vb =
     \<lparr>result = None, current_index = 0, combat_queue = shuffleArray rnd (g1 @ g2),
      group_1 = g1, group_2 = g2, verbose = (case vb of None \<Rightarrow> True | Some b \<Rightarrow> b),
      turn_state = None, active_effects = [],
      chars = store, effs = (\<lambda>r. blank_effect), next_ref = 0, log = []\<rparr>"

text \<open>The head of the loop body of \<^verbatim>\<open>_init\<close>: the snapshot is assembled and stored in
  \<^verbatim>\<open>this.turn_state\<close>.\<close>
definition prepare_turn :: "combat \<Rightarrow> error + combat" where
  "prepare_turn s =
     (case get_available_actions s of
        Inl err \<Rightarrow> Inl err
      | Inr acts \<Rightarrow>
          (let a = combat_queue s ! current_index s;
               (al, en) = get_allies_and_enemies s a
           in Inr (s\<lparr>turn_state :=
                       Some \<lparr>agent = a, available_actions = acts, allies = al, enemies = en\<rparr>\<rparr>)))"

text \<open>A decision \<^verbatim>\<open>{ action, target }\<close>: what \<^verbatim>\<open>agent.strategy(this.turn_state)\<close> returned
  for an NPC, what the caller passed to \<^verbatim>\<open>next\<close> for a player.\<close>
record decision =
  chosen_action :: "action option"
  chosen_target :: "addr option"

text \<open>The rest of the loop body, once the decision is there. A player's decision is read
  for \<^verbatim>\<open>action.related_skill\<close> first (the skill itself is not part of the state).\<close>
definition take_turn :: "env \<Rightarrow> decision \<Rightarrow> combat \<Rightarrow> (completion \<times> combat) option" where
  "take_turn E d s =
     (case chosen_action d of
        None \<Rightarrow>
          if is_npc (chars s (combat_queue s ! current_index s)) then Some (Normal, s)
          else Some (Throw TypeError, s)
      | Some action \<Rightarrow>
          if action_type action = NULL \<or> chosen_target d \<noteq> None
          then act E action (chosen_target d) s
          else Some (Normal, s))"

text \<open>A player's turn hands the snapshot out (\<^verbatim>\<open>yield this.turn_state\<close>); an NPC's turn
  does not.\<close>
definition offer_turn :: "combat \<Rightarrow> error + combat" where
  "offer_turn s =
     (case prepare_turn s of
        Inl err \<Rightarrow> Inl err
      | Inr s1 \<Rightarrow>
          Inr (if is_npc (chars s1 (combat_queue s1 ! current_index s1)) then s1
               else s1\<lparr>log := log s1 @ [Yielded]\<rparr>))"



text \<open>The states a combat passes through: the constructor's, and those left by a turn
  offered, a turn taken, a call to the ledger or a write to a character (by a closure or by
  the holder of a snapshot), a tick of the ledger, or a step of the turn advance.\<close>
inductive reachable :: "env \<Rightarrow> combat \<Rightarrow> bool" for E :: env where
  constructed: "reachable E (Combat rnd store g1 g2 vb)"
| offered: "reachable E s \<Longrightarrow> offer_turn s = Inr s' \<Longrightarrow> reachable E s'"
| taken: "reachable E s \<Longrightarrow> take_turn E d s = Some (c, s') \<Longrightarrow> reachable E s'"
| called: "reachable E s \<Longrightarrow> reachable E (run_op s x)"
| ticked: "reachable E s \<Longrightarrow> reachable E (update_active_effects E s)"
| advanced: "reachable E s \<Longrightarrow> reachable E (advance_once E s)"

section \<open>Notions used in the statements\<close>

definition effect_key :: "combat \<Rightarrow> ref \<Rightarrow> string \<times> string" where
  "effect_key s r = (effect_type (effs s r), char_id (effs s r))"

text \<open>The ledger holds allocated records, each once.\<close>
definition ledger_wf :: "combat \<Rightarrow> bool" where
  "ledger_wf s =
     (distinct (active_effects s) \<and> (\<forall>r\<in>set (active_effects s). r < next_ref s))"

text \<open>The ledger holds allocated records, no two of one kind on one target.\<close>
definition ledger_ok :: "combat \<Rightarrow> bool" where
  "ledger_ok s =
     (distinct (map (effect_key s) (active_effects s)) \<and>
      (\<forall>r\<in>set (active_effects s). r < next_ref s))"

text \<open>The object applied has no \<^verbatim>\<open>char_id\<close> of its own, or the one of the target it is applied
  to.\<close>
definition keeps_target :: "incoming \<Rightarrow> string \<Rightarrow> bool" where
  "keeps_target e target_id = (own_char_id e = None \<or> own_char_id e = Some target_id)"

fun keeps_target_event :: "event \<Rightarrow> bool" where
  "keeps_target_event (ApplyEffectCalled e target_id) = keeps_target e target_id"
| "keeps_target_event Yielded = True"
| "keeps_target_event (TurnActionCalled r f) = True"
| "keeps_target_event (ActionAfterEndCalled r g) = True"
| "keeps_target_event (RemoveEffectCalled ty target_id) = True"

text \<open>Every effect applied so far has kept its target.\<close>
definition targets_kept :: "combat \<Rightarrow> bool" where
  "targets_kept s = list_all keeps_target_event (log s)"

text \<open>Unless some effect applied has not kept its target, the ledger holds no two records
  of one kind on one target.\<close>
definition ledger_inv :: "combat \<Rightarrow> bool" where
  "ledger_inv s = (targets_kept s \<longrightarrow> ledger_ok s)"

fun ledger_call :: "event \<Rightarrow> bool" where
  "ledger_call (ApplyEffectCalled e target_id) = True"
| "ledger_call (RemoveEffectCalled ty target_id) = True"
| "ledger_call Yielded = False"
| "ledger_call (TurnActionCalled r f) = False"
| "ledger_call (ActionAfterEndCalled r g) = False"

text \<open>The calls to \<^verbatim>\<open>apply_effect\<close> and \<^verbatim>\<open>remove_effect\<close> made so far.\<close>
definition ledger_calls :: "combat \<Rightarrow> event list" where
  "ledger_calls s = filter ledger_call (log s)"

text \<open>The record \<open>ae\<close> declares a component that the effect \<open>e\<close> blocks.\<close>
definition interrupted_by :: "incoming \<Rightarrow> active_effect \<Rightarrow> bool" where
  "interrupted_by e ae =
     (case components ae of
        None \<Rightarrow> False
      | Some cs \<Rightarrow> (SOMATIC \<in> set cs \<and> blocks_somatic e) \<or> (VERBAL \<in> set cs \<and> blocks_verbal e))"

fun neutral_op :: "op \<Rightarrow> bool" where
  "neutral_op (ApplyEffect e target_id) = False"
| "neutral_op (RemoveEffect ty target_id) = False"
| "neutral_op (SetHp c hp) = True"
| "neutral_op (SetMana c mp) = True"

text \<open>No per-tick or on-expire callback applies or removes an effect.\<close>
definition ledger_neutral :: "env \<Rightarrow> bool" where
  "ledger_neutral E = (\<forall>f target s. list_all neutral_op (run_callback E f target s))"

text \<open>The callbacks one tick fires for a record, in a queue of \<open>n\<close> participants.\<close>
definition tick_events :: "nat \<Rightarrow> ref \<Rightarrow> active_effect \<Rightarrow> event list" where
  "tick_events n r ae =
     (case turn_action ae of
        Some f \<Rightarrow>
          if js_rem (remaining_turns ae) n = Num 0 \<or> remaining_turns ae = Infinity
          then [TurnActionCalled r f] else []
      | None \<Rightarrow> [])
     @ (case action_after_end ae of
          Some g \<Rightarrow> if js_decr (remaining_turns ae) = Num 0 then [ActionAfterEndCalled r g] else []
        | None \<Rightarrow> [])"

definition all_down :: "combat \<Rightarrow> bool" where
  "all_down s = (\<forall>c\<in>set (combat_queue s). current_hp (chars s c) \<le> 0)"

text \<open>How many times the engine has made the call \<open>e\<close> so far.\<close>
definition calls :: "event \<Rightarrow> combat \<Rightarrow> nat" where
  "calls e s = count_list (log s) e"

text \<open>Of the first \<open>j\<close> ticks of a counter that starts at \<open>m\<close>, the number that begin with the
  counter a multiple of \<open>n\<close>.\<close>
definition round_starts :: "int \<Rightarrow> nat \<Rightarrow> nat \<Rightarrow> nat" where
  "round_starts m n j = length (filter (\<lambda>i. (m - int i) mod int n = 0) [0..<j])"



section \<open>Example combats\<close>

text \<open>The actions of the application file: the sword's, the shield's, a spell, the inventory
  (which only opens a sub-menu), and one that nobody offers.\<close>

definition slash :: action where
  "slash = \<lparr>action_id = ''SLASH'', parent_action_id = None, action_type = PHYSICAL_ATTACK,
             related_skill = Some ''SWORDS'', execute = Closure 1\<rparr>"

definition block :: action where
  "block = \<lparr>action_id = ''BLOCK'', parent_action_id = None, action_type = HELP,
             related_skill = Some ''SHIELDS'', execute = Closure 2\<rparr>"

definition fire_bolt :: action where
  "fire_bolt = \<lparr>action_id = ''FIRE_BOLT'', parent_action_id = None, action_type = DOT,
                 related_skill = None, execute = Closure 3\<rparr>"

definition use_item :: action where
  "use_item = \<lparr>action_id = ''USE_ITEM'', parent_action_id = None, action_type = USE_ITEM,
                related_skill = None, execute = Closure 4\<rparr>"

definition flee :: action where
  "flee = \<lparr>action_id = ''FLEE'', parent_action_id = None, action_type = HELP,
            related_skill = None, execute = Closure 5\<rparr>"

definition explosion :: action where
  "explosion = \<lparr>action_id = ''EXPLOSION'', parent_action_id = None, action_type = DOT,
                 related_skill = None, execute = Closure 6\<rparr>"

definition fighter :: "string \<Rightarrow> int \<Rightarrow> bool \<Rightarrow> character" where
  "fighter cid hp npc =
     \<lparr>char_ident = cid, current_hp = hp, current_mana = 0, is_npc = npc,
      default_available_actions = [], equipped_equipment = [], spells = []\<rparr>"

definition sorTuzin :: "int \<Rightarrow> character" where
  "sorTuzin hp =
     \<lparr>char_ident = ''1'', current_hp = hp, current_mana = 10, is_npc = False,
      default_available_actions = [use_item],
      equipped_equipment =
        [\<lparr>equip_available_actions = Some [slash]\<rparr>, \<lparr>equip_available_actions = Some [block]\<rparr>,
         \<lparr>equip_available_actions = None\<rparr>],
      spells = [fire_bolt, explosion]\<rparr>"

definition javali :: "int \<Rightarrow> character" where
  "javali hp = fighter ''2'' hp True"

definition javali2 :: "int \<Rightarrow> character" where
  "javali2 hp = fighter ''32'' hp True"

text \<open>What the closures do: closure 1 deals 10 damage to the target, closure 4 opens a
  sub-menu and returns \<^verbatim>\<open>false\<close>, closure 6 deals 10 damage to the characters 1 and 2;
  callback 0 burns the target of its effect for 1 HP.\<close>
definition arena_env :: env where
  "arena_env =
     \<lparr>run_execute = (\<lambda>f target s.
        if f = 1
        then (RNumber 10,
              (case target of Some c \<Rightarrow> [SetHp c (current_hp (chars s c) - 10)] | None \<Rightarrow> []))
        else if f = 4 then (RBoolean False, [])
        else if f = 6
        then (RNumber 10,
              [SetHp 1 (current_hp (chars s 1) - 10), SetHp 2 (current_hp (chars s 2) - 10)])
        else (RBoolean True, [])),
      run_callback = (\<lambda>f target s.
        if f = 0
        then (case target of Some c \<Rightarrow> [SetHp c (current_hp (chars s c) - 1)] | None \<Rightarrow> [])
        else [])\<rparr>"

definition arena_turn :: turn_state where
  "arena_turn = \<lparr>agent = 0, available_actions = [use_item, slash, block, fire_bolt, explosion],
                  allies = [0], enemies = [1, 2]\<rparr>"

text \<open>\<^verbatim>\<open>new Combat([sorTuzin], [javali, javali2])\<close> with the queue in that order, on
  sorTuzin's turn, with the given hit points.\<close>
definition arena :: "int \<Rightarrow> int \<Rightarrow> int \<Rightarrow> combat" where
  "arena hp0 hp1 hp2 =
     \<lparr>result = None, current_index = 0, combat_queue = [0, 1, 2], group_1 = [0], group_2 = [1, 2],
      verbose = True, turn_state = Some arena_turn, active_effects = [],
      chars = (\<lambda>c. javali2 hp2)(0 := sorTuzin hp0, 1 := javali hp1),
      effs = (\<lambda>r. blank_effect), next_ref = 0, log = []\<rparr>"

text \<open>\<^verbatim>\<open>new Combat([sorTuzin], [javali])\<close>, two participants.\<close>
definition duel :: "int \<Rightarrow> int \<Rightarrow> combat" where
  "duel hp0 hp1 =
     \<lparr>result = None, current_index = 0, combat_queue = [0, 1], group_1 = [0], group_2 = [1],
      verbose = True, turn_state = None, active_effects = [],
      chars = (\<lambda>c. javali hp1)(0 := sorTuzin hp0),
      effs = (\<lambda>r. blank_effect), next_ref = 0, log = []\<rparr>"


text \<open>The duel on sorTuzin's turn, with the snapshot offered to him.\<close>
definition duel_turn :: turn_state where
  "duel_turn = \<lparr>agent = 0, available_actions = [use_item, slash, block, fire_bolt, explosion],
                 allies = [0], enemies = [1]\<rparr>"

definition duelling :: "int \<Rightarrow> int \<Rightarrow> combat" where
  "duelling hp0 hp1 = (duel hp0 hp1)\<lparr>turn_state := Some duel_turn\<rparr>"

text \<open>A state whose ledger holds the one record \<open>ae\<close>.\<close>
definition holding :: "active_effect \<Rightarrow> combat \<Rightarrow> combat" where
  "holding ae s = s\<lparr>active_effects := [0], effs := (effs s)(0 := ae), next_ref := 1\<rparr>"

definition on_target :: "effect \<Rightarrow> string \<Rightarrow> jsnum \<Rightarrow> active_effect" where
  "on_target e target_id remaining = effect.extend e (active_effect.fields target_id remaining)"

text \<open>An effect written out by the application: an object with the members of an
  \<^verbatim>\<open>IEffect\<close> only. And a record of the ledger, handed back as it is.\<close>
definition plain :: "effect \<Rightarrow> incoming" where
  "plain e = effect.extend e (incoming.fields None None)"

definition handed_back :: "active_effect \<Rightarrow> incoming" where
  "handed_back ae =
     effect.extend (effect.truncate ae)
       (incoming.fields (Some (char_id ae)) (Some (remaining_turns ae)))"

definition burning :: "int \<Rightarrow> int \<Rightarrow> cb option \<Rightarrow> effect" where
  "burning dmg rounds callback =
     \<lparr>effect_type = ''BURNING'', blocks_action = False, duration = Num rounds,
      blocks_somatic = False, blocks_verbal = False, components = None, damage = Some dmg,
      turn_action = callback, action_after_end = None\<rparr>"

definition casting :: effect where
  "casting =
     \<lparr>effect_type = ''CASTING'', blocks_action = False, duration = Num 2, blocks_somatic = False,
      blocks_verbal = False, components = Some [SOMATIC, VERBAL], damage = None,
      turn_action = None, action_after_end = Some 7\<rparr>"

definition staggered :: effect where
  "staggered =
     \<lparr>effect_type = ''STAGGERED'', blocks_action = True, duration = Num 1, blocks_somatic = True,
      blocks_verbal = False, components = None, damage = None, turn_action = None,
      action_after_end = None\<rparr>"

text \<open>sorTuzin, at 1 HP and burning, faces a javali that is down.\<close>
definition pyre :: combat where
  "pyre = holding (on_target (burning 1 1 (Some 0)) ''1'' (Num 2)) (duel 1 0)"

text \<open>sorTuzin, at 1 HP and burning, faces a javali with 10 HP; it is his turn.\<close>
definition last_stand :: combat where
  "last_stand = holding (on_target (burning 1 1 (Some 0)) ''1'' (Num 2)) (duelling 1 10)"

text \<open>sorTuzin has 10 HP and burns for 2 rounds in the arena; javali is down.\<close>
definition smouldering :: combat where
  "smouldering = holding (on_target (burning 1 2 (Some 0)) ''1'' (Num 6)) (arena 10 0 10)"


text \<open>\<^verbatim>\<open>new Combat([sorTuzin], [javali, javali2])\<close> with \<^verbatim>\<open>Math.random\<close> always 0. Javali is
  set on fire for 2 rounds; then the record of that fire, taken from
  \<^verbatim>\<open>turn_state.active_effects\<close>, is applied to sorTuzin.\<close>
definition kindled :: combat where
  "kindled =
     run_op (Combat (\<lambda>i. 0) (chars (arena 10 10 10)) [0] [1, 2] None)
       (ApplyEffect (plain (burning 1 2 (Some 0))) ''2'')"

definition spread_fire :: combat where
  "spread_fire = run_op kindled (ApplyEffect (handed_back (effs kindled 0)) ''1'')"






section \<open>Auxiliary facts\<close>

subsection \<open>Lists\<close>

lemma sum_hp_sum_list: "sum_hp s g = sum_list (map (\<lambda>c. current_hp (chars s c)) g)"
proof -
  have "foldl (\<lambda>acc curr. acc + current_hp (chars s curr)) a g = a + sum_list (map (\<lambda>c. current_hp (chars s c)) g)" for a
    by (induction g arbitrary: a) simp_all
  then show ?thesis by (simp add: sum_hp_def)
qed

lemma find_None_iff2: "(find P xs = None) = (\<forall>x\<in>set xs. \<not> P x)"
  by (induction xs) auto






lemma cyclic_reach:
  fixes i p n :: nat
  assumes "p < n"
  shows "\<exists>k. 0 < k \<and> k \<le> n \<and> (i + k) mod n = p"
proof -
  define m where "m = i mod n"
  have m: "m < n" using assms by (simp add: m_def)
  have shift: "(i + k) mod n = (m + k) mod n" for k
    by (simp add: m_def mod_add_left_eq)
  show ?thesis
  proof (cases "m < p")
    case True
    then have "(m + (p - m)) mod n = p" using assms by simp
    then have "(i + (p - m)) mod n = p" by (simp add: shift)
    moreover have "0 < p - m" "p - m \<le> n" using True assms by simp_all
    ultimately show ?thesis by blast
  next
    case False
    have "m + (p + n - m) = p + n" using m by simp
    then have "(m + (p + n - m)) mod n = p" using assms by simp
    then have "(i + (p + n - m)) mod n = p" by (simp add: shift)
    moreover have "0 < p + n - m" "p + n - m \<le> n" using False m by simp_all
    ultimately show ?thesis by blast
  qed
qed

subsection \<open>What each operation leaves unchanged\<close>

lemma remove_effect_fields [simp]:
  "effs (remove_effect ty cid s) = effs s"
  "next_ref (remove_effect ty cid s) = next_ref s"
  "combat_queue (remove_effect ty cid s) = combat_queue s"
  "chars (remove_effect ty cid s) = chars s"
  "current_index (remove_effect ty cid s) = current_index s"
  "log (remove_effect ty cid s) = log s"
  "result (remove_effect ty cid s) = result s"
  "turn_state (remove_effect ty cid s) = turn_state s"
  "group_1 (remove_effect ty cid s) = group_1 s"
  "group_2 (remove_effect ty cid s) = group_2 s"
  "verbose (remove_effect ty cid s) = verbose s"
  by (simp_all add: remove_effect_def split: option.splits)

lemma interrupt_step_fields [simp]:
  "effs (interrupt_step e t s ae) = effs s"
  "next_ref (interrupt_step e t s ae) = next_ref s"
  "combat_queue (interrupt_step e t s ae) = combat_queue s"
  "chars (interrupt_step e t s ae) = chars s"
  "current_index (interrupt_step e t s ae) = current_index s"
  "log (interrupt_step e t s ae) = log s"
  "result (interrupt_step e t s ae) = result s"
  "turn_state (interrupt_step e t s ae) = turn_state s"
  "group_1 (interrupt_step e t s ae) = group_1 s"
  "group_2 (interrupt_step e t s ae) = group_2 s"
  "verbose (interrupt_step e t s ae) = verbose s"
  by (simp_all add: interrupt_step_def split: option.splits)

lemma interrupt_scan_fields [simp]:
  "effs (foldl (interrupt_step e t) s xs) = effs s"
  "next_ref (foldl (interrupt_step e t) s xs) = next_ref s"
  "combat_queue (foldl (interrupt_step e t) s xs) = combat_queue s"
  "chars (foldl (interrupt_step e t) s xs) = chars s"
  "current_index (foldl (interrupt_step e t) s xs) = current_index s"
  "log (foldl (interrupt_step e t) s xs) = log s"
  "result (foldl (interrupt_step e t) s xs) = result s"
  "turn_state (foldl (interrupt_step e t) s xs) = turn_state s"
  "group_1 (foldl (interrupt_step e t) s xs) = group_1 s"
  "group_2 (foldl (interrupt_step e t) s xs) = group_2 s"
  "verbose (foldl (interrupt_step e t) s xs) = verbose s"
  by (induction xs arbitrary: s; simp)+

lemma apply_effect_merge_effs:
  assumes "find (same_effect s (effect_type e) target_id) (active_effects s) = Some r"
  shows "effs (apply_effect e target_id s) = (effs s)(r := merge_effect (length (combat_queue s)) e (effs s r))"
    and "next_ref (apply_effect e target_id s) = next_ref s"
  using assms by (simp_all add: apply_effect_def Let_def)

lemma apply_effect_frame [simp]:
  "combat_queue (apply_effect e t s) = combat_queue s"
  "chars (apply_effect e t s) = chars s"
  "current_index (apply_effect e t s) = current_index s"
  "log (apply_effect e t s) = log s"
  "result (apply_effect e t s) = result s"
  "turn_state (apply_effect e t s) = turn_state s"
  "group_1 (apply_effect e t s) = group_1 s"
  "group_2 (apply_effect e t s) = group_2 s"
  "verbose (apply_effect e t s) = verbose s"
  by (simp_all add: apply_effect_def Let_def split: option.splits)

lemma run_op_frame [simp]:
  "combat_queue (run_op s x) = combat_queue s"
  "current_index (run_op s x) = current_index s"
  "result (run_op s x) = result s"
  "turn_state (run_op s x) = turn_state s"
  "group_1 (run_op s x) = group_1 s"
  "group_2 (run_op s x) = group_2 s"
  "verbose (run_op s x) = verbose s"
  by (cases x; simp)+

lemma run_ops_frame [simp]:
  "combat_queue (run_ops ops s) = combat_queue s"
  "current_index (run_ops ops s) = current_index s"
  "result (run_ops ops s) = result s"
  "turn_state (run_ops ops s) = turn_state s"
  "group_1 (run_ops ops s) = group_1 s"
  "group_2 (run_ops ops s) = group_2 s"
  "verbose (run_ops ops s) = verbose s"
  unfolding run_ops_def by (induction ops arbitrary: s; simp)+

lemma tick_effect_frame [simp]:
  "combat_queue (tick_effect E s r) = combat_queue s"
  "current_index (tick_effect E s r) = current_index s"
  "result (tick_effect E s r) = result s"
  "turn_state (tick_effect E s r) = turn_state s"
  "group_1 (tick_effect E s r) = group_1 s"
  "group_2 (tick_effect E s r) = group_2 s"
  "verbose (tick_effect E s r) = verbose s"
  by (simp_all add: tick_effect_def Let_def split: option.splits)

lemma tick_all_frame [simp]:
  "combat_queue (foldl (tick_effect E) s rs) = combat_queue s"
  "current_index (foldl (tick_effect E) s rs) = current_index s"
  "result (foldl (tick_effect E) s rs) = result s"
  "turn_state (foldl (tick_effect E) s rs) = turn_state s"
  "group_1 (foldl (tick_effect E) s rs) = group_1 s"
  "group_2 (foldl (tick_effect E) s rs) = group_2 s"
  "verbose (foldl (tick_effect E) s rs) = verbose s"
  by (induction rs arbitrary: s; simp)+

lemma update_active_effects_frame [simp]:
  "combat_queue (update_active_effects E s) = combat_queue s"
  "current_index (update_active_effects E s) = current_index s"
  "result (update_active_effects E s) = result s"
  "turn_state (update_active_effects E s) = turn_state s"
  "group_1 (update_active_effects E s) = group_1 s"
  "group_2 (update_active_effects E s) = group_2 s"
  "verbose (update_active_effects E s) = verbose s"
  by (simp_all add: update_active_effects_def Let_def)

lemma advance_once_frame [simp]:
  "combat_queue (advance_once E s) = combat_queue s"
  "current_index (advance_once E s) = (1 + current_index s) mod length (combat_queue s)"
  "result (advance_once E s) = result s"
  "turn_state (advance_once E s) = turn_state s"
  "group_1 (advance_once E s) = group_1 s"
  "group_2 (advance_once E s) = group_2 s"
  "verbose (advance_once E s) = verbose s"
  by (simp_all add: advance_once_def Let_def)

lemma advance_iter_frame [simp]:
  "combat_queue ((advance_once E ^^ k) s) = combat_queue s"
  "result ((advance_once E ^^ k) s) = result s"
  "turn_state ((advance_once E ^^ k) s) = turn_state s"
  "group_1 ((advance_once E ^^ k) s) = group_1 s"
  "group_2 ((advance_once E ^^ k) s) = group_2 s"
  "verbose ((advance_once E ^^ k) s) = verbose s"
  by (induction k; simp)+

lemma advance_iter_index:
  "combat_queue s \<noteq> [] \<Longrightarrow> 0 < k \<Longrightarrow>
   current_index ((advance_once E ^^ k) s) = (current_index s + k) mod length (combat_queue s)"
proof (induction k)
  case 0
  then show ?case by simp
next
  case (Suc k)
  show ?case
  proof (cases "k = 0")
    case True
    then show ?thesis by simp
  next
    case False
    with Suc have "current_index ((advance_once E ^^ k) s) = (current_index s + k) mod length (combat_queue s)"
      by simp
    then show ?thesis by (simp add: mod_Suc_eq)
  qed
qed

lemma check_finish_frame [simp]:
  "combat_queue (check_finish s) = combat_queue s"
  "current_index (check_finish s) = current_index s"
  "chars (check_finish s) = chars s"
  "effs (check_finish s) = effs s"
  "active_effects (check_finish s) = active_effects s"
  "turn_state (check_finish s) = turn_state s"
  "group_1 (check_finish s) = group_1 s"
  "group_2 (check_finish s) = group_2 s"
  "verbose (check_finish s) = verbose s"
  "log (check_finish s) = log s"
  "next_ref (check_finish s) = next_ref s"
  by (simp_all add: check_finish_def)

subsection \<open>The scheduler loop\<close>

lemma move_combat_queue_sound:
  assumes "move_combat_queue E s = Some y"
  shows "(combat_queue s = [] \<and> y = (Throw TypeError, update_active_effects E s))
       \<or> (combat_queue s \<noteq> [] \<and>
           (\<exists>k>0. y = (Normal, (advance_once E ^^ k) s) \<and> can_attack ((advance_once E ^^ k) s)
                 \<and> (\<forall>j. 0 < j \<and> j < k \<longrightarrow> \<not> can_attack ((advance_once E ^^ j) s))))"
proof (rule move_combat_queue.raw_induct[OF _ assms])
  fix mv E s y
  assume IH: "\<And>E s y. mv E s = Some y \<Longrightarrow>
      (combat_queue s = [] \<and> y = (Throw TypeError, update_active_effects E s))
       \<or> (combat_queue s \<noteq> [] \<and>
           (\<exists>k>0. y = (Normal, (advance_once E ^^ k) s) \<and> can_attack ((advance_once E ^^ k) s)
                 \<and> (\<forall>j. 0 < j \<and> j < k \<longrightarrow> \<not> can_attack ((advance_once E ^^ j) s))))"
    and eq: "(if combat_queue s = [] then Some (Throw TypeError, update_active_effects E s)
        else if can_attack (advance_once E s) then Some (Normal, advance_once E s)
        else mv E (advance_once E s)) = Some y"
  show "(combat_queue s = [] \<and> y = (Throw TypeError, update_active_effects E s))
       \<or> (combat_queue s \<noteq> [] \<and>
           (\<exists>k>0. y = (Normal, (advance_once E ^^ k) s) \<and> can_attack ((advance_once E ^^ k) s)
                 \<and> (\<forall>j. 0 < j \<and> j < k \<longrightarrow> \<not> can_attack ((advance_once E ^^ j) s))))"
  proof (cases "combat_queue s = []")
    case True
    with eq show ?thesis by simp
  next
    case ne: False
    show ?thesis
    proof (cases "can_attack (advance_once E s)")
      case True
      with eq ne have "y = (Normal, (advance_once E ^^ 1) s)" by simp
      moreover have "can_attack ((advance_once E ^^ 1) s)" using True by simp
      ultimately show ?thesis using ne by (intro disjI2 conjI exI[of _ 1]) auto
    next
      case False
      with eq ne have "mv E (advance_once E s) = Some y" by simp
      from IH[OF this] ne obtain k where k: "0 < k"
        "y = (Normal, (advance_once E ^^ k) (advance_once E s))"
        "can_attack ((advance_once E ^^ k) (advance_once E s))"
        "\<forall>j. 0 < j \<and> j < k \<longrightarrow> \<not> can_attack ((advance_once E ^^ j) (advance_once E s))"
        by auto
      have low: "\<not> can_attack ((advance_once E ^^ j) s)" if "0 < j" "j < Suc k" for j
      proof (cases j)
        case 0
        with that show ?thesis by simp
      next
        case (Suc i)
        show ?thesis
        proof (cases "i = 0")
          case True
          with Suc False show ?thesis by simp
        next
          case nz: False
          with Suc that k(4) have "\<not> can_attack ((advance_once E ^^ i) (advance_once E s))" by simp
          then show ?thesis using Suc by (simp add: funpow_swap1)
        qed
      qed
      show ?thesis
        using ne k(2,3) low
        by (intro disjI2 conjI exI[of _ "Suc k"]) (simp_all add: funpow_swap1)
    qed
  qed
qed

lemma move_combat_queue_complete:
  assumes "combat_queue s \<noteq> []" "can_attack ((advance_once E ^^ Suc k) s)"
    "\<forall>j. 0 < j \<and> j < Suc k \<longrightarrow> \<not> can_attack ((advance_once E ^^ j) s)"
  shows "move_combat_queue E s = Some (Normal, (advance_once E ^^ Suc k) s)"
  using assms
proof (induction k arbitrary: s)
  case 0
  then show ?case by (subst move_combat_queue.simps) simp
next
  case (Suc k)
  have n1: "\<not> can_attack (advance_once E s)"
    using Suc.prems(3)[rule_format, of 1] by simp
  have "move_combat_queue E (advance_once E s) = Some (Normal, (advance_once E ^^ Suc k) (advance_once E s))"
  proof (rule Suc.IH)
    show "combat_queue (advance_once E s) \<noteq> []" using Suc.prems(1) by simp
    show "can_attack ((advance_once E ^^ Suc k) (advance_once E s))"
      using Suc.prems(2) by (simp add: funpow_swap1)
    show "\<forall>j. 0 < j \<and> j < Suc k \<longrightarrow> \<not> can_attack ((advance_once E ^^ j) (advance_once E s))"
    proof (intro allI impI)
      fix j assume "0 < j \<and> j < Suc k"
      then have "\<not> can_attack ((advance_once E ^^ Suc j) s)"
        using Suc.prems(3)[rule_format, of "Suc j"] by simp
      then show "\<not> can_attack ((advance_once E ^^ j) (advance_once E s))"
        by (simp add: funpow_swap1)
    qed
  qed
  then show ?case
    using Suc.prems(1) n1 by (subst move_combat_queue.simps) (simp add: funpow_swap1)
qed

lemma move_combat_queue_completion:
  "move_combat_queue E s = Some (c, s') \<Longrightarrow> c = Normal \<or> c = Throw TypeError"
  by (drule move_combat_queue_sound) auto

lemma first_can_attack:
  assumes "0 < k" "can_attack ((advance_once E ^^ k) s)"
  shows "\<exists>k'>0. k' \<le> k \<and> can_attack ((advance_once E ^^ k') s)
            \<and> (\<forall>j. 0 < j \<and> j < k' \<longrightarrow> \<not> can_attack ((advance_once E ^^ j) s))"
proof -
  define P where "P j = (0 < j \<and> can_attack ((advance_once E ^^ j) s))" for j
  have Pk: "P k" using assms by (simp add: P_def)
  define k' where "k' = (LEAST j. P j)"
  have "P k'" unfolding k'_def using Pk by (rule LeastI)
  moreover have "k' \<le> k" unfolding k'_def using Pk by (rule Least_le)
  moreover have "\<not> P j" if "j < k'" for j using that not_less_Least unfolding k'_def by blast
  ultimately show ?thesis unfolding P_def by (intro exI[of _ k']) auto
qed

lemma move_combat_queue_returns:
  assumes ne: "combat_queue s \<noteq> []"
  shows "(move_combat_queue E s \<noteq> None) = (\<exists>k>0. can_attack ((advance_once E ^^ k) s))"
proof
  assume "move_combat_queue E s \<noteq> None"
  then obtain y where "move_combat_queue E s = Some y" by auto
  from move_combat_queue_sound[OF this] ne
  show "\<exists>k>0. can_attack ((advance_once E ^^ k) s)" by auto
next
  assume "\<exists>k>0. can_attack ((advance_once E ^^ k) s)"
  then obtain k where k: "0 < k" "can_attack ((advance_once E ^^ k) s)" by blast
  from first_can_attack[OF k] obtain k' where k': "0 < k'"
    "can_attack ((advance_once E ^^ k') s)"
    "\<forall>j. 0 < j \<and> j < k' \<longrightarrow> \<not> can_attack ((advance_once E ^^ j) s)"
    by blast
  then obtain k0 where k0: "k' = Suc k0" by (cases k') auto
  have "move_combat_queue E s = Some (Normal, (advance_once E ^^ k') s)"
    using move_combat_queue_complete[OF ne, where E=E and k=k0] k' k0 by simp
  then show "move_combat_queue E s \<noteq> None" by simp
qed

lemma move_combat_queue_eq:
  "move_combat_queue E s =
     (if combat_queue s = [] then Some (Throw TypeError, update_active_effects E s)
      else if \<exists>k>0. can_attack ((advance_once E ^^ k) s)
      then Some (Normal,
             (advance_once E ^^ (LEAST k. 0 < k \<and> can_attack ((advance_once E ^^ k) s))) s)
      else None)"
proof (cases "combat_queue s = []")
  case True
  then show ?thesis by (subst move_combat_queue.simps) simp
next
  case ne: False
  show ?thesis
  proof (cases "\<exists>k>0. can_attack ((advance_once E ^^ k) s)")
    case False
    with move_combat_queue_returns[OF ne, of E] have "move_combat_queue E s = None" by blast
    with ne False show ?thesis by (simp only: if_False)
  next
    case True
    define P where "P k = (0 < k \<and> can_attack ((advance_once E ^^ k) s))" for k
    define k' where "k' = (LEAST k. P k)"
    from True obtain k where "P k" unfolding P_def by blast
    then have Pk: "P k'" unfolding k'_def by (rule LeastI)
    have low: "\<not> P j" if "j < k'" for j using that not_less_Least unfolding k'_def by blast
    from Pk obtain k0 where k0: "k' = Suc k0" unfolding P_def by (cases k') auto
    have "move_combat_queue E s = Some (Normal, (advance_once E ^^ Suc k0) s)"
    proof (rule move_combat_queue_complete[OF ne])
      show "can_attack ((advance_once E ^^ Suc k0) s)" using Pk k0 by (simp add: P_def)
      show "\<forall>j. 0 < j \<and> j < Suc k0 \<longrightarrow> \<not> can_attack ((advance_once E ^^ j) s)"
        using low k0 by (auto simp: P_def)
    qed
    then show ?thesis using ne True k0 by (simp add: k'_def P_def)
  qed
qed


lemma advance_iter_step:
  "(advance_once E ^^ Suc i) s =
     (update_active_effects E ((advance_once E ^^ i) s))
       \<lparr>current_index := (1 + current_index ((advance_once E ^^ i) s)) mod length (combat_queue s)\<rparr>"
  by (simp add: advance_once_def Let_def)

lemma quiet_update: "active_effects s = [] \<Longrightarrow> update_active_effects E s = s"
  by (simp add: update_active_effects_def)

lemma quiet_advance:
  "active_effects s = [] \<Longrightarrow>
   advance_once E s = s\<lparr>current_index := (1 + current_index s) mod length (combat_queue s)\<rparr>"
  by (simp add: advance_once_def quiet_update)

lemma quiet_iter:
  "active_effects s = [] \<Longrightarrow>
   active_effects ((advance_once E ^^ k) s) = [] \<and> chars ((advance_once E ^^ k) s) = chars s"
  by (induction k) (simp_all add: quiet_advance)

lemma all_down_never:
  assumes "active_effects s = []" "all_down s" "combat_queue s \<noteq> []" "0 < k"
  shows "\<not> can_attack ((advance_once E ^^ k) s)"
proof -
  have "current_index ((advance_once E ^^ k) s) < length (combat_queue s)"
    using advance_iter_index[OF assms(3,4), where E=E] assms(3) by simp
  then have "combat_queue s ! current_index ((advance_once E ^^ k) s) \<in> set (combat_queue s)"
    by simp
  with assms(2) have "current_hp (chars s (combat_queue s ! current_index ((advance_once E ^^ k) s))) \<le> 0"
    by (simp add: all_down_def)
  then show ?thesis using quiet_iter[OF assms(1), where E=E and k=k] by (simp add: can_attack_def)
qed

lemma all_down_diverges:
  assumes "active_effects s = []" "all_down s" "combat_queue s \<noteq> []"
  shows "move_combat_queue E s = None"
proof (cases "move_combat_queue E s")
  case None then show ?thesis .
next
  case (Some y)
  from move_combat_queue_sound[OF Some] assms(3) all_down_never[OF assms, where E=E]
  show ?thesis by blast
qed

subsection \<open>Executing an action\<close>

lemma find_offers_None:
  "(find (offers a) avs = None) =
   (\<forall>av\<in>set avs. action_id av \<noteq> action_id a \<and> Some (action_id av) \<noteq> parent_action_id a)"
  by (auto simp: find_None_iff2 offers_def)

lemma act_unavailable:
  "turn_state s = Some ts \<Longrightarrow> find (offers a) (available_actions ts) = None \<Longrightarrow>
   act E a t s = Some (Throw ActionNotAvailable, s)"
  by (simp add: act_def)

lemma act_available:
  "turn_state s = Some ts \<Longrightarrow> find (offers a) (available_actions ts) = Some av \<Longrightarrow>
   call_execute E (execute a) t s = (r, ops) \<Longrightarrow>
   act E a t s =
     (if verbose s \<and> is_number r \<and> t = None then Some (Throw TypeError, run_ops ops s)
      else if consumes_turn r
      then (case move_combat_queue E (run_ops ops s) of
              None \<Rightarrow> None
            | Some (Throw err, s2) \<Rightarrow> Some (Throw err, s2)
            | Some (Normal, s2) \<Rightarrow> Some (Normal, check_finish s2))
      else Some (Normal, check_finish (run_ops ops s)))"
  by (simp add: act_def Let_def)

lemma consumes_turn_iff: "consumes_turn r = (r \<noteq> RBoolean False)"
  by (cases r) auto

lemma act_cases:
  assumes ts: "turn_state s = Some ts" and f: "find (offers a) (available_actions ts) = Some av"
    and ex: "call_execute E (execute a) t s = (r, ops)"
  shows "act E a t s =
     (if verbose s \<and> is_number r \<and> t = None then Some (Throw TypeError, run_ops ops s)
      else if r = RBoolean False then Some (Normal, check_finish (run_ops ops s))
      else if combat_queue s = []
      then Some (Throw TypeError, update_active_effects E (run_ops ops s))
      else if \<exists>k>0. can_attack ((advance_once E ^^ k) (run_ops ops s))
      then Some (Normal, check_finish
             ((advance_once E ^^ (LEAST k. 0 < k \<and> can_attack ((advance_once E ^^ k) (run_ops ops s))))
                (run_ops ops s)))
      else None)"
proof (cases "\<exists>k>0. can_attack ((advance_once E ^^ k) (run_ops ops s))")
  case True
  have "move_combat_queue E (run_ops ops s) =
     (if combat_queue s = [] then Some (Throw TypeError, update_active_effects E (run_ops ops s))
      else Some (Normal,
             (advance_once E ^^ (LEAST k. 0 < k \<and> can_attack ((advance_once E ^^ k) (run_ops ops s))))
               (run_ops ops s)))"
    using True by (simp only: move_combat_queue_eq[of E "run_ops ops s"] run_ops_frame if_True)
  then show ?thesis
    unfolding act_available[OF ts f ex] consumes_turn_iff using True
    by (simp only: if_True) simp
next
  case False
  have "move_combat_queue E (run_ops ops s) =
     (if combat_queue s = [] then Some (Throw TypeError, update_active_effects E (run_ops ops s))
      else None)"
    using False by (simp only: move_combat_queue_eq[of E "run_ops ops s"] run_ops_frame if_False)
  then show ?thesis
    unfolding act_available[OF ts f ex] consumes_turn_iff using False
    by (simp only: if_False) simp
qed

subsection \<open>Properties kept by every step of the engine\<close>












subsection \<open>The ledger holds allocated records, each once\<close>

lemma ledger_wf_update [simp]:
  "ledger_wf (s\<lparr>chars := cs\<rparr>) = ledger_wf s"
  "ledger_wf (s\<lparr>log := l\<rparr>) = ledger_wf s"
  "ledger_wf (s\<lparr>current_index := i\<rparr>) = ledger_wf s"
  "ledger_wf (s\<lparr>turn_state := ts\<rparr>) = ledger_wf s"
  "ledger_wf (s\<lparr>result := w\<rparr>) = ledger_wf s"
  "ledger_wf (s\<lparr>effs := es\<rparr>) = ledger_wf s"
  by (simp_all add: ledger_wf_def)













subsection \<open>No two records of one kind on one target\<close>

lemma effect_key_fun: "effect_key s = (\<lambda>r. (effect_type (effs s r), char_id (effs s r)))"
  by (simp add: effect_key_def fun_eq_iff)

lemma pushed_record_fields [simp]:
  "effect_type (pushed_record n e t) = effect_type e"
  "blocks_action (pushed_record n e t) = blocks_action e"
  "duration (pushed_record n e t) = duration e"
  "components (pushed_record n e t) = components e"
  "damage (pushed_record n e t) = damage e"
  "turn_action (pushed_record n e t) = turn_action e"
  "action_after_end (pushed_record n e t) = action_after_end e"
  "char_id (pushed_record n e t) = (case own_char_id e of Some c \<Rightarrow> c | None \<Rightarrow> t)"
  "remaining_turns (pushed_record n e t) =
     (case own_remaining_turns e of Some m \<Rightarrow> m | None \<Rightarrow> js_times (duration e) n)"
  by (simp_all add: pushed_record_def effect.extend_def effect.truncate_def
      active_effect.fields_def)




lemma merge_effect_key [simp]:
  "effect_type (merge_effect n e ae) = effect_type ae"
  "char_id (merge_effect n e ae) = char_id ae"
  by (simp_all add: merge_effect_def Let_def split: option.splits)


lemma field_update_ok [simp]:
  "ledger_ok (s\<lparr>chars := cs\<rparr>) = ledger_ok s"
  "ledger_ok (s\<lparr>log := l\<rparr>) = ledger_ok s"
  "ledger_ok (s\<lparr>current_index := i\<rparr>) = ledger_ok s"
  "ledger_ok (s\<lparr>turn_state := ts\<rparr>) = ledger_ok s"
  "ledger_ok (s\<lparr>result := w\<rparr>) = ledger_ok s"
  by (simp_all add: ledger_ok_def effect_key_fun)

lemma decr_ok [simp]:
  "ledger_ok (s\<lparr>effs := (effs s)(r := (effs s r)\<lparr>remaining_turns := x\<rparr>)\<rparr>) = ledger_ok s"
proof -
  have "effect_key (s\<lparr>effs := (effs s)(r := (effs s r)\<lparr>remaining_turns := x\<rparr>)\<rparr>) = effect_key s"
    by (auto simp: effect_key_def fun_eq_iff)
  then show ?thesis by (simp add: ledger_ok_def)
qed


lemma targets_kept_update [simp]:
  "targets_kept (s\<lparr>chars := cs\<rparr>) = targets_kept s"
  "targets_kept (s\<lparr>current_index := i\<rparr>) = targets_kept s"
  "targets_kept (s\<lparr>turn_state := ts\<rparr>) = targets_kept s"
  "targets_kept (s\<lparr>result := w\<rparr>) = targets_kept s"
  "targets_kept (s\<lparr>effs := es\<rparr>) = targets_kept s"
  "targets_kept (s\<lparr>active_effects := rs\<rparr>) = targets_kept s"
  "targets_kept (s\<lparr>log := l\<rparr>) = list_all keeps_target_event l"
  "targets_kept (remove_effect ty cid s) = targets_kept s"
  "targets_kept (apply_effect e t s) = targets_kept s"
  by (simp_all add: targets_kept_def)

lemma ledger_inv_update [simp]:
  "ledger_inv (s\<lparr>chars := cs\<rparr>) = ledger_inv s"
  "ledger_inv (s\<lparr>current_index := i\<rparr>) = ledger_inv s"
  "ledger_inv (s\<lparr>turn_state := ts\<rparr>) = ledger_inv s"
  "ledger_inv (s\<lparr>result := w\<rparr>) = ledger_inv s"
  "ledger_inv (s\<lparr>effs := (effs s)(r := (effs s r)\<lparr>remaining_turns := x\<rparr>)\<rparr>) = ledger_inv s"
  "keeps_target_event ev \<Longrightarrow> ledger_inv (s\<lparr>log := log s @ [ev]\<rparr>) = ledger_inv s"
  by (simp_all add: ledger_inv_def) (simp add: targets_kept_def)









lemma interrupt_step_subset:
  "set (active_effects (interrupt_step e t s ae)) \<subseteq> set (active_effects s)"
  by (auto simp: interrupt_step_def remove_effect_def split: option.splits
      dest: in_set_takeD in_set_dropD)

lemma interrupt_scan_subset:
  "set (active_effects (foldl (interrupt_step e t) s xs)) \<subseteq> set (active_effects s)"
proof (induction xs arbitrary: s)
  case Nil
  then show ?case by simp
next
  case (Cons x xs)
  show ?case using Cons[of "interrupt_step e t s x"] interrupt_step_subset[of e t s x] by auto
qed

subsection \<open>Removing a record\<close>







subsection \<open>What \<^verbatim>\<open>apply_effect\<close> leaves in the ledger\<close>


lemma merge_effect_components [simp]:
  "components (merge_effect n e ae) = components ae"
  by (simp add: merge_effect_def Let_def split: option.splits)

lemma interrupted_by_merge [simp]:
  "interrupted_by e (merge_effect n e' ae) = interrupted_by e ae"
  by (simp add: interrupted_by_def)


subsection \<open>Ticks during which no call reaches the ledger\<close>

lemma js_rem_zero: "0 < n \<Longrightarrow> (js_rem (Num m) n = Num 0) = (m mod int n = 0)"
proof -
  assume n: "0 < n"
  have "(sgn m * (\<bar>m\<bar> mod int n) = 0) = (\<bar>m\<bar> mod int n = 0)"
    by (cases "m = 0") (auto simp: sgn_if)
  also have "\<dots> = (int n dvd \<bar>m\<bar>)" by (simp add: dvd_eq_mod_eq_0)
  also have "\<dots> = (int n dvd m)" by simp
  also have "\<dots> = (m mod int n = 0)" by (simp add: dvd_eq_mod_eq_0)
  finally show ?thesis using n by simp
qed

lemma run_op_calls:
  "length (ledger_calls (run_op s x)) = length (ledger_calls s) + (if neutral_op x then 0 else 1)"
  by (cases x) (simp_all add: ledger_calls_def)

lemma run_ops_calls:
  "length (ledger_calls (run_ops ops s))
     = length (ledger_calls s) + length (filter (\<lambda>x. \<not> neutral_op x) ops)"
  unfolding run_ops_def by (induction ops arbitrary: s) (simp_all add: run_op_calls)

lemma run_op_neutral:
  "neutral_op x \<Longrightarrow>
   effs (run_op s x) = effs s \<and> active_effects (run_op s x) = active_effects s
   \<and> next_ref (run_op s x) = next_ref s \<and> log (run_op s x) = log s"
  by (cases x) simp_all

lemma run_ops_neutral:
  "list_all neutral_op ops \<Longrightarrow>
   effs (run_ops ops s) = effs s \<and> active_effects (run_ops ops s) = active_effects s
   \<and> next_ref (run_ops ops s) = next_ref s \<and> log (run_ops ops s) = log s"
  unfolding run_ops_def
  by (induction ops arbitrary: s) (simp_all add: run_op_neutral)

lemma callback_step:
  assumes ev: "\<not> ledger_call ev"
  shows "length (ledger_calls s) \<le> length (ledger_calls (run_ops ops (s\<lparr>log := log s @ [ev]\<rparr>)))"
    and "length (ledger_calls (run_ops ops (s\<lparr>log := log s @ [ev]\<rparr>))) \<le> length (ledger_calls s) \<Longrightarrow>
         effs (run_ops ops (s\<lparr>log := log s @ [ev]\<rparr>)) = effs s
         \<and> active_effects (run_ops ops (s\<lparr>log := log s @ [ev]\<rparr>)) = active_effects s
         \<and> next_ref (run_ops ops (s\<lparr>log := log s @ [ev]\<rparr>)) = next_ref s
         \<and> log (run_ops ops (s\<lparr>log := log s @ [ev]\<rparr>)) = log s @ [ev]"
proof -
  have "ledger_calls (s\<lparr>log := log s @ [ev]\<rparr>) = ledger_calls s"
    using ev by (simp add: ledger_calls_def)
  then have c: "length (ledger_calls (run_ops ops (s\<lparr>log := log s @ [ev]\<rparr>)))
      = length (ledger_calls s) + length (filter (\<lambda>x. \<not> neutral_op x) ops)"
    by (simp add: run_ops_calls)
  show "length (ledger_calls s) \<le> length (ledger_calls (run_ops ops (s\<lparr>log := log s @ [ev]\<rparr>)))"
    by (simp add: c)
  assume "length (ledger_calls (run_ops ops (s\<lparr>log := log s @ [ev]\<rparr>))) \<le> length (ledger_calls s)"
  then have "filter (\<lambda>x. \<not> neutral_op x) ops = []" by (simp add: c)
  then have "list_all neutral_op ops" by (simp add: filter_empty_conv list_all_iff)
  from run_ops_neutral[OF this, of "s\<lparr>log := log s @ [ev]\<rparr>"]
  show "effs (run_ops ops (s\<lparr>log := log s @ [ev]\<rparr>)) = effs s
         \<and> active_effects (run_ops ops (s\<lparr>log := log s @ [ev]\<rparr>)) = active_effects s
         \<and> next_ref (run_ops ops (s\<lparr>log := log s @ [ev]\<rparr>)) = next_ref s
         \<and> log (run_ops ops (s\<lparr>log := log s @ [ev]\<rparr>)) = log s @ [ev]"
    by simp
qed

lemma tick_effect_quiet:
  "length (ledger_calls s) \<le> length (ledger_calls (tick_effect E s r))"
  "length (ledger_calls (tick_effect E s r)) \<le> length (ledger_calls s) \<Longrightarrow>
     effs (tick_effect E s r) =
       (effs s)(r := (effs s r)\<lparr>remaining_turns := js_decr (remaining_turns (effs s r))\<rparr>)
     \<and> active_effects (tick_effect E s r) = active_effects s
     \<and> next_ref (tick_effect E s r) = next_ref s
     \<and> log (tick_effect E s r) = log s @ tick_events (length (combat_queue s)) r (effs s r)"
proof -
  define tgt where "tgt = get_char_by_id s (char_id (effs s r))"
  define fire1 where "fire1 =
    (js_rem (remaining_turns (effs s r)) (length (combat_queue s)) = Num 0
     \<or> remaining_turns (effs s r) = Infinity)"
  define s1 where "s1 =
    (case turn_action (effs s r) of
       Some f \<Rightarrow>
         if fire1
         then run_ops (run_callback E f tgt s) (s\<lparr>log := log s @ [TurnActionCalled r f]\<rparr>)
         else s
     | None \<Rightarrow> s)"
  define s2 where "s2 =
    s1\<lparr>effs := (effs s1)(r := (effs s1 r)\<lparr>remaining_turns := js_decr (remaining_turns (effs s1 r))\<rparr>)\<rparr>"
  define s3 where "s3 =
    (case action_after_end (effs s2 r) of
       Some g \<Rightarrow>
         if remaining_turns (effs s2 r) = Num 0
         then run_ops (run_callback E g tgt s2) (s2\<lparr>log := log s2 @ [ActionAfterEndCalled r g]\<rparr>)
         else s2
     | None \<Rightarrow> s2)"
  define ev1 where "ev1 =
    (case turn_action (effs s r) of
       Some f \<Rightarrow> if fire1 then [TurnActionCalled r f] else []
     | None \<Rightarrow> [])"
  define ev2 where "ev2 =
    (case action_after_end (effs s2 r) of
       Some g \<Rightarrow> if remaining_turns (effs s2 r) = Num 0 then [ActionAfterEndCalled r g] else []
     | None \<Rightarrow> [])"
  have T: "tick_effect E s r = s3"
    unfolding tick_effect_def s1_def s2_def s3_def tgt_def fire1_def Let_def ..
  have m1: "length (ledger_calls s) \<le> length (ledger_calls s1)"
    unfolding s1_def by (simp add: callback_step(1) split: option.splits)
  have c2: "ledger_calls s2 = ledger_calls s1" by (simp add: s2_def ledger_calls_def)
  have m2: "length (ledger_calls s2) \<le> length (ledger_calls s3)"
    unfolding s3_def by (simp add: callback_step(1) split: option.splits)
  show "length (ledger_calls s) \<le> length (ledger_calls (tick_effect E s r))"
    unfolding T using m1 m2 c2 by simp
  assume "length (ledger_calls (tick_effect E s r)) \<le> length (ledger_calls s)"
  then have q: "length (ledger_calls s3) \<le> length (ledger_calls s)" by (simp add: T)
  have q1: "length (ledger_calls s1) \<le> length (ledger_calls s)" using q m2 c2 by simp
  have q2: "length (ledger_calls s3) \<le> length (ledger_calls s2)" using q m1 c2 by simp
  have f1: "effs s1 = effs s \<and> active_effects s1 = active_effects s
      \<and> next_ref s1 = next_ref s \<and> log s1 = log s @ ev1"
  proof (cases "turn_action (effs s r)")
    case None
    then show ?thesis by (simp add: s1_def ev1_def)
  next
    case (Some f)
    show ?thesis
    proof (cases fire1)
      case False
      with Some show ?thesis by (simp add: s1_def ev1_def)
    next
      case True
      with Some have s1: "s1 = run_ops (run_callback E f tgt s) (s\<lparr>log := log s @ [TurnActionCalled r f]\<rparr>)"
        and e: "ev1 = [TurnActionCalled r f]"
        by (simp_all add: s1_def ev1_def)
      from callback_step(2)[of "TurnActionCalled r f" "run_callback E f tgt s" s] q1
      show ?thesis unfolding s1 e by simp
    qed
  qed
  have f2: "effs s2 = (effs s)(r := (effs s r)\<lparr>remaining_turns := js_decr (remaining_turns (effs s r))\<rparr>)"
    "active_effects s2 = active_effects s" "next_ref s2 = next_ref s" "log s2 = log s @ ev1"
    using f1 by (simp_all add: s2_def)
  have f3: "effs s3 = effs s2 \<and> active_effects s3 = active_effects s2
      \<and> next_ref s3 = next_ref s2 \<and> log s3 = log s2 @ ev2"
  proof (cases "action_after_end (effs s2 r)")
    case None
    then show ?thesis by (simp add: s3_def ev2_def)
  next
    case (Some g)
    show ?thesis
    proof (cases "remaining_turns (effs s2 r) = Num 0")
      case False
      with Some show ?thesis by (simp add: s3_def ev2_def)
    next
      case True
      with Some have s3: "s3 = run_ops (run_callback E g tgt s2) (s2\<lparr>log := log s2 @ [ActionAfterEndCalled r g]\<rparr>)"
        and e: "ev2 = [ActionAfterEndCalled r g]"
        by (simp_all add: s3_def ev2_def)
      from callback_step(2)[of "ActionAfterEndCalled r g" "run_callback E g tgt s2" s2] q2
      show ?thesis unfolding s3 e by simp
    qed
  qed
  have ev: "ev1 @ ev2 = tick_events (length (combat_queue s)) r (effs s r)"
    by (simp add: ev1_def ev2_def tick_events_def fire1_def f2(1) split: option.splits)
  show "effs (tick_effect E s r) =
       (effs s)(r := (effs s r)\<lparr>remaining_turns := js_decr (remaining_turns (effs s r))\<rparr>)
     \<and> active_effects (tick_effect E s r) = active_effects s
     \<and> next_ref (tick_effect E s r) = next_ref s
     \<and> log (tick_effect E s r) = log s @ tick_events (length (combat_queue s)) r (effs s r)"
    unfolding T using f2 f3 ev by simp
qed

lemma tick_all_mono:
  "length (ledger_calls s) \<le> length (ledger_calls (foldl (tick_effect E) s rs))"
proof (induction rs arbitrary: s)
  case Nil
  show ?case by simp
next
  case (Cons r rs)
  from tick_effect_quiet(1)[of s E r] Cons[of "tick_effect E s r"] show ?case by simp
qed

lemma tick_all_quiet:
  "distinct rs \<Longrightarrow>
   length (ledger_calls (foldl (tick_effect E) s rs)) \<le> length (ledger_calls s) \<Longrightarrow>
         effs (foldl (tick_effect E) s rs) =
           (\<lambda>x. if x \<in> set rs
                then (effs s x)\<lparr>remaining_turns := js_decr (remaining_turns (effs s x))\<rparr>
                else effs s x)
       \<and> active_effects (foldl (tick_effect E) s rs) = active_effects s
       \<and> next_ref (foldl (tick_effect E) s rs) = next_ref s
       \<and> log (foldl (tick_effect E) s rs) =
           log s @ concat (map (\<lambda>r. tick_events (length (combat_queue s)) r (effs s r)) rs)"
proof (induction rs arbitrary: s)
  case Nil
  then show ?case by simp
next
  case (Cons r rs)
  let ?t = "tick_effect E s r"
  from Cons.prems have d: "distinct rs" and nr: "r \<notin> set rs" by simp_all
  have q: "length (ledger_calls (foldl (tick_effect E) ?t rs)) \<le> length (ledger_calls s)"
    using Cons.prems(2) by simp
  have qt: "length (ledger_calls ?t) \<le> length (ledger_calls s)"
    using q tick_all_mono[of ?t E rs] by simp
  have qr: "length (ledger_calls (foldl (tick_effect E) ?t rs)) \<le> length (ledger_calls ?t)"
    using q tick_effect_quiet(1)[of s E r] by simp
  from tick_effect_quiet(2)[OF qt]
  have T: "effs ?t = (effs s)(r := (effs s r)\<lparr>remaining_turns := js_decr (remaining_turns (effs s r))\<rparr>)"
    "active_effects ?t = active_effects s" "next_ref ?t = next_ref s"
    "log ?t = log s @ tick_events (length (combat_queue s)) r (effs s r)"
    by blast+
  note IH = Cons.IH[OF d qr]
  have same: "effs ?t x = effs s x" if "x \<in> set rs" for x
    using that nr by (auto simp: T(1))
  have 1: "effs (foldl (tick_effect E) s (r # rs)) =
           (\<lambda>x. if x \<in> set (r # rs)
                then (effs s x)\<lparr>remaining_turns := js_decr (remaining_turns (effs s x))\<rparr>
                else effs s x)"
  proof
    fix x
    show "effs (foldl (tick_effect E) s (r # rs)) x =
           (if x \<in> set (r # rs)
            then (effs s x)\<lparr>remaining_turns := js_decr (remaining_turns (effs s x))\<rparr>
            else effs s x)"
    proof (cases "x \<in> set rs")
      case True
      then show ?thesis using IH same[OF True] by simp
    next
      case False
      then show ?thesis using IH by (simp add: T(1))
    qed
  qed
  have meq: "map (\<lambda>r'. tick_events (length (combat_queue ?t)) r' (effs ?t r')) rs
      = map (\<lambda>r'. tick_events (length (combat_queue s)) r' (effs s r')) rs"
    using same by simp
  have "log (foldl (tick_effect E) s (r # rs)) =
          log ?t @ concat (map (\<lambda>r'. tick_events (length (combat_queue ?t)) r' (effs ?t r')) rs)"
    using IH by simp
  also have "\<dots> = log ?t @ concat (map (\<lambda>r'. tick_events (length (combat_queue s)) r' (effs s r')) rs)"
    by (simp only: meq)
  also have "\<dots> = log s @ concat (map (\<lambda>r. tick_events (length (combat_queue s)) r (effs s r)) (r # rs))"
    by (simp add: T(4))
  finally have 2: "log (foldl (tick_effect E) s (r # rs)) =
           log s @ concat (map (\<lambda>r. tick_events (length (combat_queue s)) r (effs s r)) (r # rs))" .
  from IH have 3: "active_effects (foldl (tick_effect E) s (r # rs)) = active_effects s"
    and 4: "next_ref (foldl (tick_effect E) s (r # rs)) = next_ref s"
    by (simp_all add: T)
  from 1 2 3 4 show ?case by blast
qed

lemma update_calls:
  "ledger_calls (update_active_effects E s) = ledger_calls (foldl (tick_effect E) s (active_effects s))"
  by (simp add: update_active_effects_def Let_def ledger_calls_def)

lemma update_mono:
  "length (ledger_calls s) \<le> length (ledger_calls (update_active_effects E s))"
  by (simp add: update_calls tick_all_mono)

lemma update_quiet:
  assumes q: "length (ledger_calls (update_active_effects E s)) \<le> length (ledger_calls s)"
    and d: "distinct (active_effects s)"
  shows "effs (update_active_effects E s) =
           (\<lambda>x. if x \<in> set (active_effects s)
                then (effs s x)\<lparr>remaining_turns := js_decr (remaining_turns (effs s x))\<rparr>
                else effs s x)"
    and "active_effects (update_active_effects E s) =
           filter (\<lambda>r. js_positive (js_decr (remaining_turns (effs s r)))) (active_effects s)"
    and "next_ref (update_active_effects E s) = next_ref s"
    and "log (update_active_effects E s) =
           log s @ concat (map (\<lambda>r. tick_events (length (combat_queue s)) r (effs s r))
                            (active_effects s))"
proof -
  from q have "length (ledger_calls (foldl (tick_effect E) s (active_effects s))) \<le> length (ledger_calls s)"
    by (simp add: update_calls)
  note T = tick_all_quiet[OF d this]
  show "effs (update_active_effects E s) =
           (\<lambda>x. if x \<in> set (active_effects s)
                then (effs s x)\<lparr>remaining_turns := js_decr (remaining_turns (effs s x))\<rparr>
                else effs s x)"
    using T by (simp add: update_active_effects_def Let_def)
  show "next_ref (update_active_effects E s) = next_ref s"
    using T by (simp add: update_active_effects_def Let_def)
  show "log (update_active_effects E s) =
           log s @ concat (map (\<lambda>r. tick_events (length (combat_queue s)) r (effs s r))
                            (active_effects s))"
    using T by (simp add: update_active_effects_def Let_def)
  have "filter (\<lambda>r. js_positive (remaining_turns (effs (foldl (tick_effect E) s (active_effects s)) r)))
          (active_effects s)
      = filter (\<lambda>r. js_positive (js_decr (remaining_turns (effs s r)))) (active_effects s)"
    by (rule filter_cong) (simp_all add: T)
  then show "active_effects (update_active_effects E s) =
           filter (\<lambda>r. js_positive (js_decr (remaining_turns (effs s r)))) (active_effects s)"
    using T by (simp add: update_active_effects_def Let_def)
qed

lemma count_concat_one:
  assumes "distinct rs" "r \<in> set rs" "\<And>r'. r' \<noteq> r \<Longrightarrow> e \<notin> set (g r')"
  shows "count_list (concat (map g rs)) e = count_list (g r) e"
  using assms(1,2)
proof (induction rs)
  case Nil
  then show ?case by simp
next
  case (Cons x rs)
  have zero: "count_list (concat (map g ys)) e = 0" if "r \<notin> set ys" for ys
    using that
  proof (induction ys)
    case Nil
    then show ?case by simp
  next
    case (Cons y ys)
    then have "e \<notin> set (g y)" using assms(3)[of y] by auto
    with Cons show ?case by (simp add: count_list_0_iff)
  qed
  show ?case
  proof (cases "x = r")
    case True
    with Cons.prems have "r \<notin> set rs" by simp
    from zero[OF this] True show ?thesis by simp
  next
    case False
    with Cons have "count_list (concat (map g rs)) e = count_list (g r) e" by simp
    moreover have "e \<notin> set (g x)" using assms(3)[OF False] .
    ultimately show ?thesis by (simp add: count_list_0_iff)
  qed
qed

lemma tick_events_other:
  "r' \<noteq> r \<Longrightarrow> TurnActionCalled r f \<notin> set (tick_events n r' ae)"
  "r' \<noteq> r \<Longrightarrow> ActionAfterEndCalled r g \<notin> set (tick_events n r' ae)"
  by (auto simp: tick_events_def split: option.splits if_splits)

lemma tick_events_count:
  assumes "remaining_turns ae = Num m" "0 < n"
  shows "count_list (tick_events n r ae) (TurnActionCalled r f) =
           (if turn_action ae = Some f \<and> m mod int n = 0 then 1 else 0)"
    and "count_list (tick_events n r ae) (ActionAfterEndCalled r g) =
           (if action_after_end ae = Some g \<and> m = 1 then 1 else 0)"
  using assms by (auto simp: tick_events_def js_rem_zero simp del: js_rem.simps split: option.splits)

lemma tick_record:
  assumes q: "length (ledger_calls (update_active_effects E s)) \<le> length (ledger_calls s)"
    and d: "distinct (active_effects s)"
    and r: "r \<in> set (active_effects s)" and m: "remaining_turns (effs s r) = Num m"
    and ne: "combat_queue s \<noteq> []"
  shows "effs (update_active_effects E s) r = (effs s r)\<lparr>remaining_turns := Num (m - 1)\<rparr>"
    and "r \<in> set (active_effects (update_active_effects E s)) \<longleftrightarrow> 1 < m"
    and "calls (TurnActionCalled r f) (update_active_effects E s) =
           calls (TurnActionCalled r f) s
           + (if turn_action (effs s r) = Some f \<and> m mod int (length (combat_queue s)) = 0
              then 1 else 0)"
    and "calls (ActionAfterEndCalled r g) (update_active_effects E s) =
           calls (ActionAfterEndCalled r g) s
           + (if action_after_end (effs s r) = Some g \<and> m = 1 then 1 else 0)"
    and "distinct (active_effects (update_active_effects E s))"
proof -
  note U = update_quiet[OF q d]
  have n: "0 < length (combat_queue s)" using ne by simp
  show "effs (update_active_effects E s) r = (effs s r)\<lparr>remaining_turns := Num (m - 1)\<rparr>"
    using r m by (simp add: U(1))
  show "r \<in> set (active_effects (update_active_effects E s)) \<longleftrightarrow> 1 < m"
    using r m by (simp add: U(2))
  show "distinct (active_effects (update_active_effects E s))"
    using d by (simp add: U(2))
  have c: "count_list (concat (map (\<lambda>r. tick_events (length (combat_queue s)) r (effs s r))
              (active_effects s))) e
        = count_list (tick_events (length (combat_queue s)) r (effs s r)) e"
    if "\<And>r'. r' \<noteq> r \<Longrightarrow> e \<notin> set (tick_events (length (combat_queue s)) r' (effs s r'))" for e
    using d r that by (rule count_concat_one)
  show "calls (TurnActionCalled r f) (update_active_effects E s) =
           calls (TurnActionCalled r f) s
           + (if turn_action (effs s r) = Some f \<and> m mod int (length (combat_queue s)) = 0
              then 1 else 0)"
    using c[of "TurnActionCalled r f"] tick_events_count(1)[OF m n, of r f]
    by (simp add: calls_def U(4) tick_events_other)
  show "calls (ActionAfterEndCalled r g) (update_active_effects E s) =
           calls (ActionAfterEndCalled r g) s
           + (if action_after_end (effs s r) = Some g \<and> m = 1 then 1 else 0)"
    using c[of "ActionAfterEndCalled r g"] tick_events_count(2)[OF m n, of r g]
    by (simp add: calls_def U(4) tick_events_other)
qed

lemma step_mono:
  assumes st: "\<forall>x. \<exists>i. step x = (update_active_effects E x)\<lparr>current_index := i\<rparr>"
  shows "length (ledger_calls s) \<le> length (ledger_calls ((step ^^ j) s))"
proof (induction j)
  case 0
  show ?case by simp
next
  case (Suc j)
  from st obtain i where
    "step ((step ^^ j) s) = (update_active_effects E ((step ^^ j) s))\<lparr>current_index := i\<rparr>"
    by blast
  then have "ledger_calls ((step ^^ Suc j) s) = ledger_calls (update_active_effects E ((step ^^ j) s))"
    by (simp add: ledger_calls_def)
  with Suc update_mono[of "(step ^^ j) s" E] show ?case by simp
qed

lemma tick_lifetime:
  assumes st: "\<forall>x. \<exists>i. step x = (update_active_effects E x)\<lparr>current_index := i\<rparr>"
    and d: "distinct (active_effects s)"
    and r: "r \<in> set (active_effects s)" and m: "remaining_turns (effs s r) = Num m"
    and ne: "combat_queue s \<noteq> []"
  shows "int j \<le> m \<Longrightarrow>
         length (ledger_calls ((step ^^ j) s)) \<le> length (ledger_calls s) \<Longrightarrow>
         distinct (active_effects ((step ^^ j) s))
       \<and> combat_queue ((step ^^ j) s) = combat_queue s
       \<and> effs ((step ^^ j) s) r = (effs s r)\<lparr>remaining_turns := Num (m - int j)\<rparr>
       \<and> (r \<in> set (active_effects ((step ^^ j) s)) \<longleftrightarrow> j = 0 \<or> int j < m)
       \<and> calls (TurnActionCalled r f) ((step ^^ j) s) =
           calls (TurnActionCalled r f) s
           + (if turn_action (effs s r) = Some f
              then round_starts m (length (combat_queue s)) j else 0)
       \<and> calls (ActionAfterEndCalled r g) ((step ^^ j) s) =
           calls (ActionAfterEndCalled r g) s
           + (if action_after_end (effs s r) = Some g \<and> 0 < j \<and> int j = m then 1 else 0)"
proof (induction j)
  case 0
  show ?case using d r m by (simp add: round_starts_def)
next
  case (Suc j)
  let ?sj = "(step ^^ j) s"
  let ?u = "update_active_effects E ?sj"
  from st obtain i where i: "step ?sj = ?u\<lparr>current_index := i\<rparr>" by blast
  have sS: "(step ^^ Suc j) s = ?u\<lparr>current_index := i\<rparr>" by (simp add: i)
  have cS: "ledger_calls ((step ^^ Suc j) s) = ledger_calls ?u"
    unfolding sS by (simp add: ledger_calls_def)
  from Suc.prems have jm: "int j < m" by simp
  then have jm': "int j \<le> m" by simp
  have qj: "length (ledger_calls ?sj) \<le> length (ledger_calls s)"
    using Suc.prems(2) update_mono[of ?sj E] unfolding cS by simp
  have qu: "length (ledger_calls ?u) \<le> length (ledger_calls ?sj)"
    using Suc.prems(2) step_mono[OF st, of s j] unfolding cS by simp
  note IH = Suc.IH[OF jm' qj]
  from IH have dj: "distinct (active_effects ?sj)"
    and kj: "combat_queue ?sj = combat_queue s"
    and ej: "effs ?sj r = (effs s r)\<lparr>remaining_turns := Num (m - int j)\<rparr>"
    and cj: "calls (TurnActionCalled r f) ?sj =
           calls (TurnActionCalled r f) s
           + (if turn_action (effs s r) = Some f
              then round_starts m (length (combat_queue s)) j else 0)"
    and aj: "calls (ActionAfterEndCalled r g) ?sj =
           calls (ActionAfterEndCalled r g) s
           + (if action_after_end (effs s r) = Some g \<and> 0 < j \<and> int j = m then 1 else 0)"
    by blast+
  from IH jm have rj: "r \<in> set (active_effects ?sj)" by blast
  have mj: "remaining_turns (effs ?sj r) = Num (m - int j)" by (simp add: ej)
  have nej: "combat_queue ?sj \<noteq> []" using ne kj by simp
  note T = tick_record[OF qu dj rj mj nej]
  have rs: "round_starts m n (Suc j) = round_starts m n j + (if (m - int j) mod int n = 0 then 1 else 0)" for n
    by (simp add: round_starts_def)
  have cu: "calls e (?u\<lparr>current_index := i\<rparr>) = calls e ?u" for e by (simp add: calls_def)
  show ?case unfolding sS
  proof (intro conjI)
    show "distinct (active_effects (?u\<lparr>current_index := i\<rparr>))" using T(5) by simp
    show "combat_queue (?u\<lparr>current_index := i\<rparr>) = combat_queue s" using kj by simp
    show "effs (?u\<lparr>current_index := i\<rparr>) r = (effs s r)\<lparr>remaining_turns := Num (m - int (Suc j))\<rparr>"
      by (simp add: T(1) ej algebra_simps)
    show "(r \<in> set (active_effects (?u\<lparr>current_index := i\<rparr>))) = (Suc j = 0 \<or> int (Suc j) < m)"
      using T(2) by auto
    show "calls (TurnActionCalled r f) (?u\<lparr>current_index := i\<rparr>) =
           calls (TurnActionCalled r f) s
           + (if turn_action (effs s r) = Some f
              then round_starts m (length (combat_queue s)) (Suc j) else 0)"
      unfolding cu by (simp add: T(3)[of f] cj ej kj rs)
    show "calls (ActionAfterEndCalled r g) (?u\<lparr>current_index := i\<rparr>) =
           calls (ActionAfterEndCalled r g) s
           + (if action_after_end (effs s r) = Some g \<and> 0 < Suc j \<and> int (Suc j) = m then 1 else 0)"
      unfolding cu using jm by (auto simp add: T(4)[of g] aj ej)
  qed
qed


lemma advance_is_step:
  "\<forall>x. \<exists>i. advance_once E x = (update_active_effects E x)\<lparr>current_index := i\<rparr>"
  by (auto simp: advance_once_def Let_def)

subsection \<open>Callbacks that only write to characters\<close>

lemma neutral_tick_effect:
  assumes "ledger_neutral E"
  shows "ledger_calls (tick_effect E s r) = ledger_calls s"
proof -
  have n: "list_all neutral_op (run_callback E f t x)" for f t x
    using assms by (simp add: ledger_neutral_def)
  show ?thesis
    by (simp add: tick_effect_def Let_def ledger_calls_def run_ops_neutral[OF n]
        split: option.splits)
qed

lemma neutral_tick_all:
  "ledger_neutral E \<Longrightarrow> ledger_calls (foldl (tick_effect E) s rs) = ledger_calls s"
  by (induction rs arbitrary: s) (simp_all add: neutral_tick_effect)

lemma neutral_update:
  "ledger_neutral E \<Longrightarrow> ledger_calls (update_active_effects E s) = ledger_calls s"
  by (simp add: update_calls neutral_tick_all)

lemma neutral_steps:
  assumes "ledger_neutral E"
  shows "ledger_calls ((update_active_effects E ^^ j) s) = ledger_calls s"
    and "ledger_calls ((advance_once E ^^ j) s) = ledger_calls s"
proof -
  have a: "ledger_calls (advance_once E x) = ledger_calls (update_active_effects E x)" for x
    by (simp add: advance_once_def Let_def ledger_calls_def)
  show "ledger_calls ((update_active_effects E ^^ j) s) = ledger_calls s"
    by (induction j) (simp_all add: neutral_update[OF assms])
  show "ledger_calls ((advance_once E ^^ j) s) = ledger_calls s"
    by (induction j) (simp_all add: a neutral_update[OF assms])
qed

subsection \<open>The controller loop\<close>













subsection \<open>The example combats, evaluated\<close>

lemmas arena_defs = arena_def arena_turn_def arena_env_def sorTuzin_def javali_def javali2_def
  fighter_def slash_def block_def fire_bolt_def use_item_def flee_def explosion_def

lemmas effect_defs = holding_def on_target_def burning_def casting_def staggered_def plain_def
  handed_back_def pushed_record_def effect.extend_def effect.truncate_def
  active_effect.fields_def incoming.fields_def

lemmas duel_defs = duel_def duelling_def duel_turn_def

lemmas ledger_defs = apply_effect_def same_effect_def interrupt_step_def remove_effect_def
  merge_effect_def instanceOfEffectWithActionPerTurn_def

lemmas tick_defs = advance_once_def update_active_effects_def tick_effect_def get_char_by_id_def
  run_ops_def

lemmas engine_defs = offer_turn_def prepare_turn_def get_available_actions_def
  get_allies_and_enemies_def take_turn_def act_def offers_def run_ops_def
  advance_once_def update_active_effects_def can_attack_def check_finish_def sum_hp_def

lemma all_down_cannot:
  "all_down s \<Longrightarrow> current_index s < length (combat_queue s) \<Longrightarrow> \<not> can_attack s"
  by (simp add: all_down_def can_attack_def not_less)

lemma arena_env_neutral: "ledger_neutral arena_env"
  by (simp add: ledger_neutral_def arena_env_def split: option.splits)


lemma round_starts_6_3: "round_starts 6 3 2 = 1" "round_starts 6 (Suc (Suc (Suc 0))) 2 = Suc 0"
  by code_simp+


text \<open>The last one standing burns down on the first tick: nobody is left to act.\<close>
lemma last_stand_hangs:
  assumes q: "combat_queue s = [0, 1]" and l: "active_effects s = [0]"
    and e: "effs s 0 = on_target (burning 1 1 (Some 0)) ''1'' (Num 2)"
    and c0: "chars s 0 = sorTuzin 1" and c1: "current_hp (chars s 1) \<le> 0"
  shows "\<forall>k>0. \<not> can_attack ((advance_once arena_env ^^ k) s)"
proof -
  define s1 where "s1 = advance_once arena_env s"
  define s2 where "s2 = advance_once arena_env s1"
  have f1: "combat_queue s1 = [0, 1]" "active_effects s1 = [0]"
    "remaining_turns (effs s1 0) = Num 1" "turn_action (effs s1 0) = Some 0"
    "action_after_end (effs s1 0) = None" "char_id (effs s1 0) = ''1''"
    "current_hp (chars s1 0) = 0" "chars s1 (Suc 0) = chars s (Suc 0)"
    unfolding s1_def
    by (simp_all add: tick_defs Let_def q l e c0 effect_defs sorTuzin_def arena_env_def)
  have d1: "all_down s1" using f1 c1 by (simp add: all_down_def)
  have f2: "combat_queue s2 = [0, 1]" "active_effects s2 = []" "chars s2 = chars s1"
    unfolding s2_def
    by (simp_all add: tick_defs Let_def f1 arena_env_def)
  have d2: "all_down s2" using d1 f1(1) f2 by (simp add: all_down_def)
  have i1: "current_index s1 < length (combat_queue s1)" by (simp add: s1_def q)
  have i2: "current_index s2 < length (combat_queue s2)" by (simp add: s2_def s1_def q)
  have n1: "\<not> can_attack s1" using d1 i1 by (rule all_down_cannot)
  have n2: "\<not> can_attack s2" using d2 i2 by (rule all_down_cannot)
  have ne2: "combat_queue s2 \<noteq> []" by (simp add: f2)
  show ?thesis
  proof (intro allI impI)
    fix k :: nat assume k: "0 < k"
    show "\<not> can_attack ((advance_once arena_env ^^ k) s)"
    proof (cases "k = 1")
      case True
      with n1 show ?thesis by (simp add: s1_def)
    next
      case False
      define j where "j = k - 2"
      from k False have j: "k = j + 2" by (simp add: j_def)
      have split: "(advance_once arena_env ^^ k) s = (advance_once arena_env ^^ j) s2"
        unfolding j s2_def s1_def by (simp add: funpow_swap1)
      show ?thesis
      proof (cases "j = 0")
        case True
        with n2 split show ?thesis by simp
      next
        case False
        then have "0 < j" by simp
        from all_down_never[OF f2(2) d2 ne2 this, of arena_env] split show ?thesis by simp
      qed
    qed
  qed
qed

lemma pyre_fields:
  "combat_queue pyre = [0, 1]" "active_effects pyre = [0]"
  "effs pyre 0 = on_target (burning 1 1 (Some 0)) ''1'' (Num 2)"
  "chars pyre 0 = sorTuzin 1" "current_hp (chars pyre 1) \<le> 0"
  by (simp_all add: pyre_def holding_def duel_def javali_def fighter_def)

lemma last_stand_struck:
  "combat_queue (run_ops [SetHp 1 0] last_stand) = [0, 1]"
  "active_effects (run_ops [SetHp 1 0] last_stand) = [0]"
  "effs (run_ops [SetHp 1 0] last_stand) 0 = on_target (burning 1 1 (Some 0)) ''1'' (Num 2)"
  "chars (run_ops [SetHp 1 0] last_stand) 0 = sorTuzin 1"
  "current_hp (chars (run_ops [SetHp 1 0] last_stand) 1) \<le> 0"
  by (simp_all add: last_stand_def holding_def duel_defs run_ops_def)

lemma last_stand_turn:
  "turn_state last_stand = Some duel_turn"
  "find (offers slash) (available_actions duel_turn) = Some slash"
  "call_execute arena_env (execute slash) (Some 1) last_stand = (RNumber 10, [SetHp 1 0])"
  "combat_queue last_stand \<noteq> []"
  by (simp_all add: last_stand_def holding_def duel_defs arena_defs offers_def)

lemma last_stand_hung:
  "\<forall>k>0. \<not> can_attack ((advance_once arena_env ^^ k) (run_ops [SetHp 1 0] last_stand))"
  by (rule last_stand_hangs[OF last_stand_struck])

lemma last_stand_act: "act arena_env slash (Some 1) last_stand = None"
proof -
  have e: "\<not> (\<exists>k>0. can_attack ((advance_once arena_env ^^ k) (run_ops [SetHp 1 0] last_stand)))"
    using last_stand_hung by blast
  have v: "\<not> (verbose last_stand \<and> is_number (RNumber 10) \<and> Some 1 = (None::addr option))"
    by simp
  show ?thesis
    unfolding act_cases[OF last_stand_turn(1,2,3)] using e v last_stand_turn(4)
    by (simp only: if_False action_result.distinct)
qed

lemma smouldering_fields:
  "combat_queue smouldering \<noteq> []" "distinct (active_effects smouldering)"
  "0 \<in> set (active_effects smouldering)" "remaining_turns (effs smouldering 0) = Num 6"
  "turn_action (effs smouldering 0) = Some 0" "length (combat_queue smouldering) = 3"
  "current_index smouldering = 0" "calls (TurnActionCalled 0 0) smouldering = 0"
  "combat_queue smouldering = [0, 1, 2]"
  by (simp_all add: smouldering_def arena_def effect_defs calls_def)

text \<open>In the arena sorTuzin burns (counter 6) and javali is down: the advance passes
  javali and stops on javali2, after two ticks.\<close>
lemma smouldering_step1:
  "current_index (advance_once arena_env smouldering) = 1"
  "combat_queue (advance_once arena_env smouldering) = [0, 1, 2]"
  "active_effects (advance_once arena_env smouldering) = [0]"
  "remaining_turns (effs (advance_once arena_env smouldering) 0) = Num 5"
  "turn_action (effs (advance_once arena_env smouldering) 0) = Some 0"
  "action_after_end (effs (advance_once arena_env smouldering) 0) = None"
  "char_id (effs (advance_once arena_env smouldering) 0) = ''1''"
  "current_hp (chars (advance_once arena_env smouldering) 0) = 9"
  "current_hp (chars (advance_once arena_env smouldering) (Suc 0)) = 0"
  "current_hp (chars (advance_once arena_env smouldering) (Suc (Suc 0))) = 10"
  by (simp_all add: smouldering_def tick_defs Let_def effect_defs arena_defs)

lemma smouldering_step2:
  "current_hp (chars (advance_once arena_env (advance_once arena_env smouldering)) (Suc (Suc 0))) = 10"
proof -
  define s1 where "s1 = advance_once arena_env smouldering"
  note f = smouldering_step1[folded s1_def]
  show ?thesis
    unfolding s1_def[symmetric]
    by (simp add: tick_defs Let_def f arena_env_def)
qed

lemma smouldering_first:
  "can_attack ((advance_once arena_env ^^ 2) smouldering) \<and>
   (\<forall>j. 0 < j \<and> j < 2 \<longrightarrow> \<not> can_attack ((advance_once arena_env ^^ j) smouldering))"
proof (intro conjI allI impI)
  show "can_attack ((advance_once arena_env ^^ 2) smouldering)"
    by (simp add: numeral_2_eq_2 can_attack_def smouldering_fields smouldering_step2)
next
  fix j :: nat assume "0 < j \<and> j < 2"
  then have j: "j = Suc 0" by simp
  show "\<not> can_attack ((advance_once arena_env ^^ j) smouldering)"
    unfolding j by (simp add: can_attack_def smouldering_fields smouldering_step1)
qed









section \<open>The claims\<close>

subsection \<open>The win check\<close>

text \<open>
  Claim C10. The win check tests the first party before the second: when the summed HP of
  both parties is at most 0, the winner is 1 (the second party), because the depletion of
  party 1 alone decides; the check produces winner 0 only when the sum of party 2 is at
  most 0 while the sum of party 1 is strictly positive.
\<close>
theorem check_finish_tie_break:
  "((\<Sum>c\<leftarrow>group_1 s. current_hp (chars s c)) \<le> 0 \<longrightarrow> result (check_finish s) = Some 1)
   \<and> (result s \<noteq> Some 0 \<longrightarrow>
        (result (check_finish s) = Some 0 \<longleftrightarrow>
           0 < (\<Sum>c\<leftarrow>group_1 s. current_hp (chars s c))
           \<and> (\<Sum>c\<leftarrow>group_2 s. current_hp (chars s c)) \<le> 0))"
  by (auto simp add: check_finish_def sum_hp_sum_list)

theorem check_finish_tie_break_witness:
  "(\<Sum>c\<leftarrow>group_1 (arena 0 0 0). current_hp (chars (arena 0 0 0) c)) \<le> 0
   \<and> (\<Sum>c\<leftarrow>group_2 (arena 0 0 0). current_hp (chars (arena 0 0 0) c)) \<le> 0
   \<and> result (check_finish (arena 0 0 0)) = Some 1"
  using check_finish_tie_break[of "arena 0 0 0"]
  by (simp add: arena_def sorTuzin_def javali_def javali2_def fighter_def)

subsection \<open>Offered actions\<close>



subsection \<open>Validating and executing an action\<close>

text \<open>
  Claim C7. With the actions offered for the turn in \<open>turn_state\<close>, \<open>act\<close> throws
  \<open>ActionNotAvailable\<close> if and only if no offered action has the id of the chosen action
  and none has the id the chosen action names as its parent; and when it throws, the state
  it leaves is the state it was called in (HP, mana, ledger and turn pointer included).
\<close>
theorem act_not_available:
  assumes ts: "turn_state s = Some ts"
  shows "((\<exists>s'. act E a t s = Some (Throw ActionNotAvailable, s')) \<longleftrightarrow>
            (\<forall>av\<in>set (available_actions ts).
               action_id av \<noteq> action_id a \<and> Some (action_id av) \<noteq> parent_action_id a))
       \<and> (\<forall>s'. act E a t s = Some (Throw ActionNotAvailable, s') \<longrightarrow> s' = s)"
proof (cases "find (offers a) (available_actions ts)")
  case None
  then show ?thesis
    using act_unavailable[OF ts None, of E t] by (simp add: find_offers_None)
next
  case (Some av)
  obtain r ops where ex: "call_execute E (execute a) t s = (r, ops)" by (cases "call_execute E (execute a) t s")
  have no: "act E a t s \<noteq> Some (Throw ActionNotAvailable, s')" for s'
    unfolding act_cases[OF ts Some ex] by (simp split: if_splits)
  have "\<not> (\<forall>av\<in>set (available_actions ts).
               action_id av \<noteq> action_id a \<and> Some (action_id av) \<noteq> parent_action_id a)"
    using Some find_offers_None[of a "available_actions ts"] by simp
  with no show ?thesis by blast
qed

theorem act_not_available_witness:
  "turn_state (arena 10 10 10) = Some arena_turn
   \<and> act arena_env flee (Some 1) (arena 10 10 10) = Some (Throw ActionNotAvailable, arena 10 10 10)"
proof
  show ts: "turn_state (arena 10 10 10) = Some arena_turn" by (simp add: arena_def)
  have "\<forall>av\<in>set (available_actions arena_turn).
               action_id av \<noteq> action_id flee \<and> Some (action_id av) \<noteq> parent_action_id flee"
    by (simp add: arena_defs)
  with act_not_available[OF ts, of arena_env flee "Some 1"]
  show "act arena_env flee (Some 1) (arena 10 10 10) = Some (Throw ActionNotAvailable, arena 10 10 10)"
    by blast
qed

text \<open>
  Claim C1, as stated, fails for a result other than \<open>false\<close>. sorTuzin slashes javali, the
  only other participant, down to 0 HP: the result is a number, the advance passes javali
  and stops on sorTuzin again, and the pointer is where it was. And when sorTuzin does so
  at 1 HP and burning, the first tick of the advance burns him down; no step of the
  advance finds a participant with positive HP, and \<open>act\<close> does not return.
\<close>
theorem act_turn_repeat_counterexample:
  "call_execute arena_env (execute slash) (Some 1) (duelling 10 10) = (RNumber 10, [SetHp 1 0])
   \<and> current_index (duelling 10 10) = 0
   \<and> map_option fst (act arena_env slash (Some 1) (duelling 10 10)) = Some Normal
   \<and> map_option (current_index \<circ> snd) (act arena_env slash (Some 1) (duelling 10 10)) = Some 0
   \<and> call_execute arena_env (execute slash) (Some 1) last_stand = (RNumber 10, [SetHp 1 0])
   \<and> act arena_env slash (Some 1) last_stand = None"
proof -
  have 1: "call_execute arena_env (execute slash) (Some 1) (duelling 10 10) = (RNumber 10, [SetHp 1 0])"
    "current_index (duelling 10 10) = 0"
    "map_option fst (act arena_env slash (Some 1) (duelling 10 10)) = Some Normal"
    "map_option (current_index \<circ> snd) (act arena_env slash (Some 1) (duelling 10 10)) = Some 0"
    by (simp_all add: engine_defs arena_defs duel_defs move_combat_queue.simps Let_def)
  from 1 last_stand_turn(3) last_stand_act show ?thesis by simp
qed



subsection \<open>The turn scheduler\<close>

text \<open>
  Claim C5, as stated, fails: from a state in which a participant has positive HP the
  advance need not reach anyone. Here sorTuzin (1 HP, burning) is the only one standing;
  the first tick of the advance burns him down, and the loop never ends.
\<close>
theorem move_combat_queue_counterexample:
  "0 < current_hp (chars pyre (combat_queue pyre ! current_index pyre))
   \<and> move_combat_queue arena_env pyre = None"
proof
  show "0 < current_hp (chars pyre (combat_queue pyre ! current_index pyre))"
    by (simp add: pyre_def holding_def duel_def sorTuzin_def)
next
  have ne: "combat_queue pyre \<noteq> []" by (simp add: pyre_fields)
  from move_combat_queue_returns[OF ne, of arena_env] last_stand_hangs[OF pyre_fields]
  show "move_combat_queue arena_env pyre = None" by blast
qed

text \<open>
  Claim C5, amended. With a non-empty queue, step \<open>i + 1\<close> of the advance is one tick of the
  ledger on the state step \<open>i\<close> left, followed by the move of the pointer to place
  \<open>i + 1\<close> round the queue from where it started. Whenever the advance returns, it has
  stopped at the first step \<open>k > 0\<close> that finds, after its tick, a participant with positive
  HP under the pointer, so it never returns on a participant with HP at most 0; it does
  return when some step finds such a participant, and does not return when none does.
  When the ticks leave the characters as they are and some participant has positive HP,
  it returns within one round, on the next participant with positive HP. The ledger has
  then been ticked once per step, the participants passed over included: when no call
  reaches the ledger during these \<open>k\<close> steps, a record whose counter was \<open>m \<ge> k\<close> has the
  counter \<open>m - k\<close>, is in the ledger if and only if \<open>k < m\<close> (or \<open>k = 0\<close>), and its per-tick
  callback has been called once for each of the \<open>k\<close> ticks that began on a multiple of the
  length of the queue.
\<close>
theorem move_combat_queue_advance:
  assumes ne: "combat_queue s \<noteq> []"
  shows "(\<forall>i. (advance_once E ^^ Suc i) s =
              (update_active_effects E ((advance_once E ^^ i) s))
                \<lparr>current_index := (current_index s + Suc i) mod length (combat_queue s)\<rparr>)
       \<and> (\<forall>s'. move_combat_queue E s = Some (Normal, s') \<longrightarrow>
            can_attack s'
          \<and> (\<exists>k>0. s' = (advance_once E ^^ k) s
                \<and> current_index s' = (current_index s + k) mod length (combat_queue s)
                \<and> (\<forall>j. 0 < j \<and> j < k \<longrightarrow> \<not> can_attack ((advance_once E ^^ j) s))))
       \<and> (\<forall>k>0. can_attack ((advance_once E ^^ k) s)
               \<and> (\<forall>j. 0 < j \<and> j < k \<longrightarrow> \<not> can_attack ((advance_once E ^^ j) s))
             \<longrightarrow> move_combat_queue E s = Some (Normal, (advance_once E ^^ k) s))
       \<and> ((move_combat_queue E s = None) = (\<forall>k>0. \<not> can_attack ((advance_once E ^^ k) s)))
       \<and> ((\<forall>k. chars ((advance_once E ^^ k) s) = chars s)
            \<and> (\<exists>c\<in>set (combat_queue s). 0 < current_hp (chars s c))
          \<longrightarrow> (\<exists>k>0. k \<le> length (combat_queue s)
                  \<and> move_combat_queue E s = Some (Normal, (advance_once E ^^ k) s)
                  \<and> 0 < current_hp (chars s (combat_queue s ! ((current_index s + k) mod length (combat_queue s))))
                  \<and> (\<forall>j. 0 < j \<and> j < k \<longrightarrow>
                        current_hp (chars s (combat_queue s ! ((current_index s + j) mod length (combat_queue s)))) \<le> 0)))
       \<and> (\<forall>k r m f g.
            distinct (active_effects s) \<and> r \<in> set (active_effects s)
            \<and> remaining_turns (effs s r) = Num m \<and> int k \<le> m
            \<and> ledger_calls ((advance_once E ^^ k) s) = ledger_calls s \<longrightarrow>
              remaining_turns (effs ((advance_once E ^^ k) s) r) = Num (m - int k)
            \<and> (r \<in> set (active_effects ((advance_once E ^^ k) s)) \<longleftrightarrow> k = 0 \<or> int k < m)
            \<and> calls (TurnActionCalled r f) ((advance_once E ^^ k) s) =
                 calls (TurnActionCalled r f) s
                 + (if turn_action (effs s r) = Some f
                    then round_starts m (length (combat_queue s)) k else 0)
            \<and> calls (ActionAfterEndCalled r g) ((advance_once E ^^ k) s) =
                 calls (ActionAfterEndCalled r g) s
                 + (if action_after_end (effs s r) = Some g \<and> 0 < k \<and> int k = m then 1 else 0))"
proof (intro conjI allI impI)
  fix i
  have "current_index ((advance_once E ^^ i) s) mod length (combat_queue s)
      = (current_index s + i) mod length (combat_queue s)"
  proof (cases "i = 0")
    case True
    then show ?thesis by simp
  next
    case False
    then show ?thesis using advance_iter_index[OF ne, of i E] by simp
  qed
  then have "(1 + current_index ((advance_once E ^^ i) s)) mod length (combat_queue s)
      = (current_index s + Suc i) mod length (combat_queue s)"
    by (metis add_Suc_right mod_Suc_eq plus_1_eq_Suc)
  then show "(advance_once E ^^ Suc i) s =
              (update_active_effects E ((advance_once E ^^ i) s))
                \<lparr>current_index := (current_index s + Suc i) mod length (combat_queue s)\<rparr>"
    by (simp only: advance_iter_step)
next
  fix s' assume m: "move_combat_queue E s = Some (Normal, s')"
  from move_combat_queue_sound[OF m] ne obtain k where k: "0 < k" "s' = (advance_once E ^^ k) s"
    "can_attack s'" "\<forall>j. 0 < j \<and> j < k \<longrightarrow> \<not> can_attack ((advance_once E ^^ j) s)"
    by auto
  show "can_attack s'" by fact
  show "\<exists>k>0. s' = (advance_once E ^^ k) s
                \<and> current_index s' = (current_index s + k) mod length (combat_queue s)
                \<and> (\<forall>j. 0 < j \<and> j < k \<longrightarrow> \<not> can_attack ((advance_once E ^^ j) s))"
    using k advance_iter_index[OF ne k(1), where E=E] by (intro exI[of _ k]) simp
next
  fix k assume "0 < k" and h: "can_attack ((advance_once E ^^ k) s)
               \<and> (\<forall>j. 0 < j \<and> j < k \<longrightarrow> \<not> can_attack ((advance_once E ^^ j) s))"
  then obtain k0 where "k = Suc k0" by (cases k) auto
  with h show "move_combat_queue E s = Some (Normal, (advance_once E ^^ k) s)"
    using move_combat_queue_complete[OF ne, where E=E and k=k0] by simp
next
  show "(move_combat_queue E s = None) = (\<forall>k>0. \<not> can_attack ((advance_once E ^^ k) s))"
    using move_combat_queue_returns[OF ne, of E] by blast
next
  assume h: "(\<forall>k. chars ((advance_once E ^^ k) s) = chars s)
            \<and> (\<exists>c\<in>set (combat_queue s). 0 < current_hp (chars s c))"
  let ?n = "length (combat_queue s)"
  have ca: "can_attack ((advance_once E ^^ k) s) =
      (0 < current_hp (chars s (combat_queue s ! ((current_index s + k) mod ?n))))" if "0 < k" for k
    using h advance_iter_index[OF ne that, where E=E] by (simp add: can_attack_def)
  from h obtain p where p: "p < ?n" "0 < current_hp (chars s (combat_queue s ! p))"
    by (auto simp: in_set_conv_nth)
  from cyclic_reach[OF p(1), of "current_index s"] obtain k where
    k: "0 < k" "k \<le> ?n" "(current_index s + k) mod ?n = p" by blast
  then have "can_attack ((advance_once E ^^ k) s)" using ca p by simp
  from first_can_attack[OF k(1) this] obtain k' where k': "0 < k'" "k' \<le> k"
    "can_attack ((advance_once E ^^ k') s)"
    "\<forall>j. 0 < j \<and> j < k' \<longrightarrow> \<not> can_attack ((advance_once E ^^ j) s)"
    by blast
  then obtain k0 where k0: "k' = Suc k0" by (cases k') auto
  have "move_combat_queue E s = Some (Normal, (advance_once E ^^ k') s)"
    using move_combat_queue_complete[OF ne, where E=E and k=k0] k' k0 by simp
  moreover have "\<forall>j. 0 < j \<and> j < k' \<longrightarrow>
      current_hp (chars s (combat_queue s ! ((current_index s + j) mod ?n))) \<le> 0"
    using k'(4) ca by (auto simp: not_less)
  ultimately show "\<exists>k>0. k \<le> ?n
                  \<and> move_combat_queue E s = Some (Normal, (advance_once E ^^ k) s)
                  \<and> 0 < current_hp (chars s (combat_queue s ! ((current_index s + k) mod ?n)))
                  \<and> (\<forall>j. 0 < j \<and> j < k \<longrightarrow>
                        current_hp (chars s (combat_queue s ! ((current_index s + j) mod ?n))) \<le> 0)"
    using k' k(2) ca[OF k'(1)] by (intro exI[of _ k']) auto
next
  fix k r m f g
  assume h: "distinct (active_effects s) \<and> r \<in> set (active_effects s)
            \<and> remaining_turns (effs s r) = Num m \<and> int k \<le> m
            \<and> ledger_calls ((advance_once E ^^ k) s) = ledger_calls s"
  then have d: "distinct (active_effects s)" and r: "r \<in> set (active_effects s)"
    and m: "remaining_turns (effs s r) = Num m" and k: "int k \<le> m"
    and q: "length (ledger_calls ((advance_once E ^^ k) s)) \<le> length (ledger_calls s)"
    by simp_all
  note L = tick_lifetime[OF advance_is_step d r m ne k q, of f g]
  from L show "remaining_turns (effs ((advance_once E ^^ k) s) r) = Num (m - int k)"
    by simp
  from L show "r \<in> set (active_effects ((advance_once E ^^ k) s)) \<longleftrightarrow> k = 0 \<or> int k < m"
    by blast
  from L show "calls (TurnActionCalled r f) ((advance_once E ^^ k) s) =
                 calls (TurnActionCalled r f) s
                 + (if turn_action (effs s r) = Some f
                    then round_starts m (length (combat_queue s)) k else 0)"
    by blast
  from L show "calls (ActionAfterEndCalled r g) ((advance_once E ^^ k) s) =
                 calls (ActionAfterEndCalled r g) s
                 + (if action_after_end (effs s r) = Some g \<and> 0 < k \<and> int k = m then 1 else 0)"
    by blast
qed

theorem move_combat_queue_advance_witness:
  "combat_queue smouldering \<noteq> []
   \<and> move_combat_queue arena_env smouldering
       = Some (Normal, (advance_once arena_env ^^ 2) smouldering)
   \<and> current_index ((advance_once arena_env ^^ 2) smouldering) = 2
   \<and> remaining_turns (effs smouldering 0) = Num 6
   \<and> remaining_turns (effs ((advance_once arena_env ^^ 2) smouldering) 0) = Num 4
   \<and> calls (TurnActionCalled 0 0) ((advance_once arena_env ^^ 2) smouldering) = 1"
proof -
  note ne = smouldering_fields(1)
  note T = move_combat_queue_advance[OF ne, of arena_env]
  have two: "0 < (2::nat)" by simp
  from T[THEN conjunct2, THEN conjunct2, THEN conjunct1, rule_format, OF two smouldering_first]
  have 1: "move_combat_queue arena_env smouldering
       = Some (Normal, (advance_once arena_env ^^ 2) smouldering)" .
  from T[THEN conjunct2, THEN conjunct1, rule_format, OF 1]
  obtain k where k: "0 < k" "(advance_once arena_env ^^ 2) smouldering = (advance_once arena_env ^^ k) smouldering"
    "current_index ((advance_once arena_env ^^ 2) smouldering)
       = (current_index smouldering + k) mod length (combat_queue smouldering)"
    "\<forall>j. 0 < j \<and> j < k \<longrightarrow> \<not> can_attack ((advance_once arena_env ^^ j) smouldering)"
    by blast
  have 2: "current_index ((advance_once arena_env ^^ 2) smouldering) = 2"
    using advance_iter_index[OF ne two, of arena_env] by (simp add: smouldering_fields)
  have h: "distinct (active_effects smouldering) \<and> 0 \<in> set (active_effects smouldering)
            \<and> remaining_turns (effs smouldering 0) = Num 6 \<and> int 2 \<le> 6
            \<and> ledger_calls ((advance_once arena_env ^^ 2) smouldering) = ledger_calls smouldering"
    using smouldering_fields neutral_steps(2)[OF arena_env_neutral, of 2 smouldering] by simp
  from T[THEN conjunct2, THEN conjunct2, THEN conjunct2, THEN conjunct2, THEN conjunct2,
      rule_format, OF h, of 0 0]
  have 3: "remaining_turns (effs ((advance_once arena_env ^^ 2) smouldering) 0) = Num 4"
    and 4: "calls (TurnActionCalled 0 0) ((advance_once arena_env ^^ 2) smouldering) = 1"
    by (simp_all add: smouldering_fields round_starts_6_3)
  from ne 1 2 3 4 smouldering_fields(4) show ?thesis by blast
qed

subsection \<open>Applying an effect\<close>

text \<open>
  Claim C4, as stated, fails for the per-tick callback: javali burns at rate 1 with no
  per-tick callback; a stronger burning (rate 5) that has one is merged in. Damage and
  duration are overwritten, the callback is not: the record still has none.
\<close>
theorem apply_effect_merge_counterexample:
  "find (same_effect (holding (on_target (burning 1 1 None) ''2'' (Num 3)) (arena 10 10 10))
          (effect_type (plain (burning 5 1 (Some 0)))) ''2'')
        (active_effects (holding (on_target (burning 1 1 None) ''2'' (Num 3)) (arena 10 10 10)))
     = Some 0
   \<and> js_gt (js_div 5 (duration (plain (burning 5 1 (Some 0))))) (js_div 1 (Num 1))
   \<and> damage (effs (apply_effect (plain (burning 5 1 (Some 0))) ''2''
                      (holding (on_target (burning 1 1 None) ''2'' (Num 3)) (arena 10 10 10))) 0)
       = Some 5
   \<and> turn_action (plain (burning 5 1 (Some 0))) = Some 0
   \<and> turn_action (effs (apply_effect (plain (burning 5 1 (Some 0))) ''2''
                           (holding (on_target (burning 1 1 None) ''2'' (Num 3)) (arena 10 10 10))) 0)
       = None"
  by (simp add: ledger_defs effect_defs arena_def Let_def)

text \<open>
  Claim C4, amended. When \<open>apply_effect\<close> finds a record of the incoming kind on the target,
  it pushes no record and adds \<open>duration \<times> participants\<close> of the incoming effect to the
  record's \<open>remaining_turns\<close>, in every case. When both carry damage and the incoming
  damage per round is strictly greater, the record's damage and duration become the
  incoming ones, and its per-tick callback becomes the incoming one when both the record
  and the incoming effect have one (otherwise the record's callback, or its absence, is
  kept); when the incoming rate is not greater, all three are kept.
\<close>
theorem apply_effect_merge:
  assumes found: "find (same_effect s (effect_type e) target_id) (active_effects s) = Some r"
  shows "remaining_turns (effs (apply_effect e target_id s) r) =
           js_plus (remaining_turns (effs s r)) (js_times (duration e) (length (combat_queue s)))
       \<and> next_ref (apply_effect e target_id s) = next_ref s
       \<and> (\<forall>old new. damage (effs s r) = Some old \<and> damage e = Some new \<longrightarrow>
            (if js_gt (js_div new (duration e)) (js_div old (duration (effs s r)))
             then damage (effs (apply_effect e target_id s) r) = Some new
                \<and> duration (effs (apply_effect e target_id s) r) = duration e
                \<and> turn_action (effs (apply_effect e target_id s) r) =
                    (if turn_action (effs s r) \<noteq> None \<and> turn_action e \<noteq> None
                     then turn_action e else turn_action (effs s r))
             else damage (effs (apply_effect e target_id s) r) = Some old
                \<and> duration (effs (apply_effect e target_id s) r) = duration (effs s r)
                \<and> turn_action (effs (apply_effect e target_id s) r) = turn_action (effs s r)))"
  by (simp add: apply_effect_merge_effs[OF found] merge_effect_def Let_def
        instanceOfEffectWithActionPerTurn_def split: option.splits)

theorem apply_effect_merge_witness:
  "find (same_effect (holding (on_target (burning 1 1 (Some 3)) ''2'' (Num 3)) (arena 10 10 10))
          (effect_type (plain (burning 5 2 (Some 0)))) ''2'')
        (active_effects (holding (on_target (burning 1 1 (Some 3)) ''2'' (Num 3)) (arena 10 10 10)))
     = Some 0
   \<and> remaining_turns (effs (apply_effect (plain (burning 5 2 (Some 0))) ''2''
        (holding (on_target (burning 1 1 (Some 3)) ''2'' (Num 3)) (arena 10 10 10))) 0) = Num 9
   \<and> turn_action (effs (apply_effect (plain (burning 5 2 (Some 0))) ''2''
        (holding (on_target (burning 1 1 (Some 3)) ''2'' (Num 3)) (arena 10 10 10))) 0) = Some 0"
proof -
  let ?s = "holding (on_target (burning 1 1 (Some 3)) ''2'' (Num 3)) (arena 10 10 10)"
  have f: "find (same_effect ?s (effect_type (plain (burning 5 2 (Some 0)))) ''2'') (active_effects ?s) = Some 0"
    by (simp add: effect_defs arena_def same_effect_def)
  have v: "remaining_turns (effs ?s 0) = Num 3" "length (combat_queue ?s) = 3"
    "duration (plain (burning 5 2 (Some 0))) = Num 2" "damage (effs ?s 0) = Some 1"
    "damage (plain (burning 5 2 (Some 0))) = Some 5" "duration (effs ?s 0) = Num 1"
    "turn_action (effs ?s 0) = Some 3" "turn_action (plain (burning 5 2 (Some 0))) = Some 0"
    by (simp_all add: effect_defs arena_def)
  note T = apply_effect_merge[OF f]
  have rem: "remaining_turns (effs (apply_effect (plain (burning 5 2 (Some 0))) ''2'' ?s) 0) = Num 9"
    using T[THEN conjunct1] by (simp add: v)
  have cb: "turn_action (effs (apply_effect (plain (burning 5 2 (Some 0))) ''2'' ?s) 0) = Some 0"
    using T[THEN conjunct2, THEN conjunct2, rule_format, of 1 5] by (simp add: v)
  from f rem cb
  show ?thesis by simp
qed

text \<open>
  Claim C2 does not hold of the code: the interruption scan of \<open>apply_effect\<close> tests each
  record of the ledger for a required component that the incoming effect blocks, but then
  calls \<open>remove_effect\<close> with the kind and target of the incoming effect. sorTuzin is
  casting (somatic and verbal components) and is staggered (which blocks somatic): the
  casting record stays in the ledger, and the record removed is the staggered one that was
  just pushed.
\<close>
theorem apply_effect_interruption_removes_incoming:
  "active_effects (holding (on_target casting ''1'' (Num 6)) (arena 10 10 10)) = [0]
   \<and> active_effects (apply_effect (plain staggered) ''1''
                        (holding (on_target casting ''1'' (Num 6)) (arena 10 10 10))) = [0]
   \<and> effect_type (effs (apply_effect (plain staggered) ''1''
                        (holding (on_target casting ''1'' (Num 6)) (arena 10 10 10))) 0) = ''CASTING''
   \<and> effect_type (effs (apply_effect (plain staggered) ''1''
                        (holding (on_target casting ''1'' (Num 6)) (arena 10 10 10))) 1) = ''STAGGERED''
   \<and> next_ref (apply_effect (plain staggered) ''1''
                        (holding (on_target casting ''1'' (Num 6)) (arena 10 10 10))) = 2"
  by (simp add: ledger_defs effect_defs arena_def Let_def)

subsection \<open>The ledger invariant\<close>

text \<open>
  Claim C3, as stated, fails: the record pushed is
  \<^verbatim>\<open>{ char_id: target_id, remaining_turns: ..., ...effect }\<close>, and the spread comes last. Javali
  is burning; the record of that fire, as found in \<^verbatim>\<open>turn_state.active_effects\<close>, is applied
  to sorTuzin. No record of that kind is on sorTuzin, so one is pushed, and it keeps the
  \<^verbatim>\<open>char_id\<close> it came with: the ledger now holds two burning records on javali.
\<close>
theorem ledger_one_record_counterexample:
  "reachable arena_env spread_fire
   \<and> map (effect_key spread_fire) (active_effects spread_fire)
       = [(''BURNING'', ''2''), (''BURNING'', ''2'')]"
proof
  show "reachable arena_env spread_fire"
    unfolding spread_fire_def kindled_def
    by (intro reachable.called reachable.constructed)
  show "map (effect_key spread_fire) (active_effects spread_fire)
       = [(''BURNING'', ''2''), (''BURNING'', ''2'')]"
    by (simp add: spread_fire_def kindled_def Combat_def ledger_defs Let_def effect_defs
        effect_key_def)
qed



subsection \<open>The life of an effect\<close>




subsection \<open>The end of a combat\<close>




end
